theory Spec2Isabelle
  imports Complex_Main
begin

section \<open>Fiscal audit engine of \<^verbatim>\<open>agente_fiscal_langchain.py\<close>\<close>

text \<open>
  The development embeds the rule-based audit of the module: the two identity validators
  \<^verbatim>\<open>validar_cnpj\<close> and \<^verbatim>\<open>validar_cpf\<close>, the monetary normaliser
  \<^verbatim>\<open>_to_decimal\<close>, the OCR audit \<^verbatim>\<open>_auditar_dados_nfs_ocr\<close> and the part of
  \<^verbatim>\<open>auditar_e_salvar_dados_fiscais\<close> between the decoding of the JSON input and the
  derivation of the status (source lines 105 to 162). The language-model call and the
  persistence that follow line 162 are collaborators and are not modelled.

  Text is modelled as \<^typ>\<open>string\<close>; a \<^typ>\<open>char\<close> stands for the code point of the same
  number, so the model covers text in the range 0..255.
\<close>

subsection \<open>Python text primitives\<close>

text \<open>
  \<^verbatim>\<open>str.isdigit\<close>: true for the ten ASCII digits and, in the modelled range, for the
  superscripts two, three and one (code points 178, 179 and 185).
\<close>

definition py_isdigit :: "char \<Rightarrow> bool" where
  "py_isdigit c =
     (let n = (of_char c :: nat) in (48 \<le> n \<and> n \<le> 57) \<or> n = 178 \<or> n = 179 \<or> n = 185)"

text \<open>
  \<^verbatim>\<open>int(d)\<close> for a one-character string: the value of an ASCII digit; \<open>None\<close> stands for
  the \<^verbatim>\<open>ValueError\<close> raised for any other character, the superscripts included.
\<close>

definition py_int_char :: "char \<Rightarrow> nat option" where
  "py_int_char c =
     (let n = (of_char c :: nat) in if 48 \<le> n \<and> n \<le> 57 then Some (n - 48) else None)"

text \<open>\<^verbatim>\<open>str.isspace\<close> in the modelled range, and \<^verbatim>\<open>str.strip()\<close>.\<close>

definition py_isspace :: "char \<Rightarrow> bool" where
  "py_isspace c =
     (let n = (of_char c :: nat)
      in (9 \<le> n \<and> n \<le> 13) \<or> (28 \<le> n \<and> n \<le> 32) \<or> n = 133 \<or> n = 160)"

definition py_strip :: "string \<Rightarrow> string" where
  "py_strip s = rev (dropWhile py_isspace (rev (dropWhile py_isspace s)))"

subsection \<open>Identity validators\<close>

text \<open>
  \<^verbatim>\<open>sum(int(d) * p for d, p in zip(digits, pesos))\<close>: the sum stops with the shorter list;
  \<open>None\<close> is the \<^verbatim>\<open>ValueError\<close> of \<^verbatim>\<open>int\<close>.
\<close>

fun soma_pesos :: "string \<Rightarrow> nat list \<Rightarrow> nat option" where
  "soma_pesos (d # ds) (p # ps) =
     (case py_int_char d of
        None \<Rightarrow> None
      | Some v \<Rightarrow> (case soma_pesos ds ps of None \<Rightarrow> None | Some t \<Rightarrow> Some (v * p + t)))"
| "soma_pesos _ _ = Some 0"

definition pesos_dv1 :: "nat list" where
  "pesos_dv1 = [5, 4, 3, 2, 9, 8, 7, 6, 5, 4, 3, 2]"

definition pesos_dv2 :: "nat list" where
  "pesos_dv2 = [6, 5, 4, 3, 2, 9, 8, 7, 6, 5, 4, 3, 2]"

text \<open>\<^verbatim>\<open>0 if resto < 2 else 11 - resto\<close>, with \<^verbatim>\<open>resto = soma % 11\<close>.\<close>

definition dv_cnpj :: "nat \<Rightarrow> nat" where
  "dv_cnpj soma = (let resto = soma mod 11 in if resto < 2 then 0 else 11 - resto)"

text \<open>
  \<^verbatim>\<open>validar_cnpj\<close>. \<^verbatim>\<open>len(set(cnpj))\<close> is the number of distinct characters. The
  length test guarantees that the reads of \<^verbatim>\<open>cnpj[12]\<close> and \<^verbatim>\<open>cnpj[13]\<close> are in
  range; every \<open>None\<close> below is a \<^verbatim>\<open>ValueError\<close> caught by the \<^verbatim>\<open>except\<close> clause,
  which returns \<^verbatim>\<open>False\<close>.
\<close>

definition validar_cnpj :: "string \<Rightarrow> bool" where
  "validar_cnpj s =
     (let cnpj = filter py_isdigit s in
      if length cnpj \<noteq> 14 \<or> length (remdups cnpj) = 1 then False
      else
        (case soma_pesos (take 12 cnpj) pesos_dv1 of
           None \<Rightarrow> False
         | Some soma1 \<Rightarrow>
             (case py_int_char (cnpj ! 12) of
                None \<Rightarrow> False
              | Some d13 \<Rightarrow>
                  if dv_cnpj soma1 \<noteq> d13 then False
                  else
                    (case soma_pesos (take 13 cnpj) pesos_dv2 of
                       None \<Rightarrow> False
                     | Some soma2 \<Rightarrow>
                         (case py_int_char (cnpj ! 13) of
                            None \<Rightarrow> False
                          | Some d14 \<Rightarrow> if dv_cnpj soma2 \<noteq> d14 then False else True)))))"

text \<open>
  \<^verbatim>\<open>sum(int(cpf[i]) * (w - i) for i in range(n))\<close> of \<^verbatim>\<open>validar_cpf\<close>, with
  \<open>w = 10, n = 9\<close> and then \<open>w = 11, n = 10\<close>: the weights fall from \<open>w\<close> by one per
  position.
\<close>

fun soma_cpf :: "string \<Rightarrow> nat \<Rightarrow> nat option" where
  "soma_cpf [] w = Some 0"
| "soma_cpf (d # ds) w =
     (case py_int_char d of
        None \<Rightarrow> None
      | Some v \<Rightarrow> (case soma_cpf ds (w - 1) of None \<Rightarrow> None | Some t \<Rightarrow> Some (v * w + t)))"

text \<open>\<^verbatim>\<open>resto = (soma * 10) % 11\<close>, then \<^verbatim>\<open>if resto == 10: resto = 0\<close>.\<close>

definition dv_cpf :: "nat \<Rightarrow> nat" where
  "dv_cpf soma = (let resto = (soma * 10) mod 11 in if resto = 10 then 0 else resto)"

definition validar_cpf :: "string \<Rightarrow> bool" where
  "validar_cpf s =
     (let cpf = filter py_isdigit s in
      if length cpf \<noteq> 11 \<or> length (remdups cpf) = 1 then False
      else
        (case soma_cpf (take 9 cpf) 10 of
           None \<Rightarrow> False
         | Some soma1 \<Rightarrow>
             (case py_int_char (cpf ! 9) of
                None \<Rightarrow> False
              | Some d10 \<Rightarrow>
                  if dv_cpf soma1 \<noteq> d10 then False
                  else
                    (case soma_cpf (take 10 cpf) 11 of
                       None \<Rightarrow> False
                     | Some soma2 \<Rightarrow>
                         (case py_int_char (cpf ! 10) of
                            None \<Rightarrow> False
                          | Some d11 \<Rightarrow> if dv_cpf soma2 \<noteq> d11 then False else True)))))"

subsection \<open>Exceptions\<close>

text \<open>
  The exceptions the audit can meet. \<^verbatim>\<open>InvalidOperation\<close> and \<^verbatim>\<open>Overflow\<close> are the two
  signals of the \<^verbatim>\<open>decimal\<close> module that its default context traps and that the
  operations used here can raise; \<^verbatim>\<open>AttributeError\<close> and \<^verbatim>\<open>TypeError\<close> come from
  reading through a JSON \<^verbatim>\<open>null\<close>.
\<close>

datatype exn = InvalidOperation | Overflow | AttributeError | TypeError

subsection \<open>The \<^verbatim>\<open>decimal.Decimal\<close> values and the default context\<close>

text \<open>
  A decimal is finite (\<open>Dec sign coefficient exponent\<close>, of value
  \<open>\<plusminus> coefficient * 10 ^ exponent\<close>, the sign \<open>True\<close> for negative), an infinity, or a
  quiet or signalling NaN (whose sign and payload are not kept: no operation below
  depends on them).

  Arithmetic follows the module's default context: precision 28, rounding
  \<^verbatim>\<open>ROUND_HALF_EVEN\<close>, \<^verbatim>\<open>Emax = 999999\<close>, \<^verbatim>\<open>Emin = -999999\<close>, traps on
  \<^verbatim>\<open>InvalidOperation\<close>, \<^verbatim>\<open>DivisionByZero\<close> and \<^verbatim>\<open>Overflow\<close>.
\<close>

datatype decimal = Dec bool nat int | Infinity bool | QNaN | SNaN

definition prec :: int where "prec = 28"
definition Emax :: int where "Emax = 999999"
definition Emin :: int where "Emin = - 999999"
definition Etiny :: int where "Etiny = Emin - prec + 1"
definition Etop :: int where "Etop = Emax - prec + 1"

text \<open>\<^verbatim>\<open>len(str(n))\<close> for a natural number.\<close>

fun ndigits :: "nat \<Rightarrow> nat" where
  "ndigits n = (if n < 10 then 1 else Suc (ndigits (n div 10)))"

declare ndigits.simps [simp del]

text \<open>The coefficient \<open>c\<close> without its last \<open>k\<close> digits, rounded half to even.\<close>

definition round_half_even :: "nat \<Rightarrow> nat \<Rightarrow> nat" where
  "round_half_even c k =
     (let q = c div 10 ^ k; r = c mod 10 ^ k
      in if 2 * r > 10 ^ k \<or> (2 * r = 10 ^ k \<and> odd q) then q + 1 else q)"

text \<open>
  The context's rounding of a finite result (\<^verbatim>\<open>Decimal._fix\<close>): a zero keeps its
  exponent within \<open>[Etiny, Emax]\<close>; a coefficient of more than \<open>prec\<close> digits (or one below
  \<open>Etiny\<close>) is rounded; a result above \<open>Emax\<close> raises the trapped \<^verbatim>\<open>Overflow\<close>. The
  signals \<^verbatim>\<open>Inexact\<close>, \<^verbatim>\<open>Rounded\<close>, \<^verbatim>\<open>Subnormal\<close>, \<^verbatim>\<open>Underflow\<close> and
  \<^verbatim>\<open>Clamped\<close> are not trapped and leave no trace.
\<close>

definition dec_fix :: "bool \<Rightarrow> nat \<Rightarrow> int \<Rightarrow> exn + decimal" where
  "dec_fix sg c e =
     (if c = 0 then Inr (Dec sg 0 (min (max e Etiny) Emax))
      else
        let exp_min = int (ndigits c) + e - prec in
        if exp_min > Etop then Inl Overflow
        else
          let exp_min' = max exp_min Etiny in
          if e < exp_min' then
            (let q = round_half_even c (nat (exp_min' - e)) in
             if int (ndigits q) > prec then
               (if exp_min' + 1 > Etop then Inl Overflow
                else Inr (Dec sg (q div 10) (exp_min' + 1)))
             else Inr (Dec sg q exp_min'))
          else Inr (Dec sg c e))"

text \<open>The signed integer \<open>\<plusminus> c * 10 ^ (e - e0)\<close>: a finite decimal in units of \<open>10 ^ e0\<close>,
  for \<open>e0 \<le> e\<close>.\<close>

definition units_at :: "int \<Rightarrow> bool \<Rightarrow> nat \<Rightarrow> int \<Rightarrow> int" where
  "units_at e0 sg c e = (if sg then - 1 else 1) * (int c * 10 ^ nat (e - e0))"

text \<open>
  \<^verbatim>\<open>Decimal.__add__\<close>. A signalling NaN raises, a quiet NaN propagates, infinities of
  opposite signs raise. For finite operands the result is the exact sum at the smaller
  exponent, rounded by the context; an exact zero sum is positive unless both operands
  are negative zeros. (The library aligns operands of very different magnitude by a
  shortcut that gives the same rounded value.)
\<close>

fun dec_add :: "decimal \<Rightarrow> decimal \<Rightarrow> exn + decimal" where
  "dec_add SNaN _ = Inl InvalidOperation"
| "dec_add _ SNaN = Inl InvalidOperation"
| "dec_add QNaN _ = Inr QNaN"
| "dec_add _ QNaN = Inr QNaN"
| "dec_add (Infinity s1) (Infinity s2) = (if s1 \<noteq> s2 then Inl InvalidOperation else Inr (Infinity s1))"
| "dec_add (Infinity s1) (Dec _ _ _) = Inr (Infinity s1)"
| "dec_add (Dec _ _ _) (Infinity s2) = Inr (Infinity s2)"
| "dec_add (Dec s1 c1 e1) (Dec s2 c2 e2) =
     (let e = min e1 e2 in
      if c1 = 0 \<and> c2 = 0 then dec_fix (s1 \<and> s2) 0 e
      else
        let r = units_at e s1 c1 e1 + units_at e s2 c2 e2
        in dec_fix (r < 0) (nat \<bar>r\<bar>) e)"

text \<open>\<^verbatim>\<open>copy_negate\<close>, and \<^verbatim>\<open>Decimal.__sub__\<close>, which adds the negated operand.\<close>

fun dec_negate :: "decimal \<Rightarrow> decimal" where
  "dec_negate (Dec s c e) = Dec (\<not> s) c e"
| "dec_negate (Infinity s) = Infinity (\<not> s)"
| "dec_negate QNaN = QNaN"
| "dec_negate SNaN = SNaN"

definition dec_sub :: "decimal \<Rightarrow> decimal \<Rightarrow> exn + decimal" where
  "dec_sub a b = dec_add a (dec_negate b)"

text \<open>\<^verbatim>\<open>abs(d)\<close>: the absolute value, rounded by the context.\<close>

fun dec_abs :: "decimal \<Rightarrow> exn + decimal" where
  "dec_abs SNaN = Inl InvalidOperation"
| "dec_abs QNaN = Inr QNaN"
| "dec_abs (Infinity _) = Inr (Infinity False)"
| "dec_abs (Dec _ c e) = dec_fix False c e"

text \<open>The numerical order of two decimals that are not NaN.\<close>

fun dec_lt :: "decimal \<Rightarrow> decimal \<Rightarrow> bool" where
  "dec_lt (Dec s1 c1 e1) (Dec s2 c2 e2) =
     (let e = min e1 e2 in units_at e s1 c1 e1 < units_at e s2 c2 e2)"
| "dec_lt (Infinity s1) (Infinity s2) = (s1 \<and> \<not> s2)"
| "dec_lt (Infinity s1) (Dec _ _ _) = s1"
| "dec_lt (Dec _ _ _) (Infinity s2) = (\<not> s2)"
| "dec_lt _ _ = False"

fun is_nan :: "decimal \<Rightarrow> bool" where
  "is_nan QNaN = True"
| "is_nan SNaN = True"
| "is_nan _ = False"

text \<open>\<^verbatim>\<open>a > b\<close>: an ordering comparison with any NaN raises \<^verbatim>\<open>InvalidOperation\<close>.\<close>

definition dec_gt :: "decimal \<Rightarrow> decimal \<Rightarrow> exn + bool" where
  "dec_gt a b = (if is_nan a \<or> is_nan b then Inl InvalidOperation else Inr (dec_lt b a))"

text \<open>\<^verbatim>\<open>a != b\<close>: a signalling NaN raises; a quiet NaN differs from everything.\<close>

definition dec_ne :: "decimal \<Rightarrow> decimal \<Rightarrow> exn + bool" where
  "dec_ne a b =
     (if a = SNaN \<or> b = SNaN then Inl InvalidOperation
      else if a = QNaN \<or> b = QNaN then Inr True
      else Inr (dec_lt a b \<or> dec_lt b a))"

subsection \<open>\<^verbatim>\<open>Decimal(str)\<close>\<close>

text \<open>
  The constructor strips surrounding whitespace, drops underscores, and accepts, without
  regard to letter case, an optional sign followed by a number (digits with an optional
  point and an optional exponent), by \<^verbatim>\<open>Inf\<close> or \<^verbatim>\<open>Infinity\<close>, or by \<^verbatim>\<open>NaN\<close> or
  \<^verbatim>\<open>sNaN\<close> with optional diagnostic digits. Construction is exact: the context does not
  round it. \<open>None\<close> stands for the \<^verbatim>\<open>InvalidOperation\<close> raised on any other text. (The
  platform's bound of about \<open>10 ^ 18\<close> on the exponent of a constructed value is not
  modelled.)
\<close>

definition is_ascii_digit :: "char \<Rightarrow> bool" where
  "is_ascii_digit c = (py_int_char c \<noteq> None)"

definition nat_of_digits :: "string \<Rightarrow> nat" where
  "nat_of_digits ds = foldl (\<lambda>a c. 10 * a + ((of_char c :: nat) - 48)) 0 ds"

definition ascii_lower :: "char \<Rightarrow> char" where
  "ascii_lower c =
     (case map_of (zip ''ABCDEFGHIJKLMNOPQRSTUVWXYZ'' ''abcdefghijklmnopqrstuvwxyz'') c of
        None \<Rightarrow> c
      | Some l \<Rightarrow> l)"

definition parse_exponent :: "string \<Rightarrow> int option" where
  "parse_exponent r =
     (case r of
        [] \<Rightarrow> Some 0
      | c # t \<Rightarrow>
          if c \<noteq> CHR ''e'' then None
          else
            let neg = (t \<noteq> [] \<and> hd t = CHR ''-'');
                ds = (if t \<noteq> [] \<and> (hd t = CHR ''-'' \<or> hd t = CHR ''+'') then tl t else t)
            in if ds \<noteq> [] \<and> list_all is_ascii_digit ds
               then Some ((if neg then - 1 else 1) * int (nat_of_digits ds))
               else None)"

definition parse_number :: "bool \<Rightarrow> string \<Rightarrow> decimal option" where
  "parse_number sg low =
     (let intpart = takeWhile is_ascii_digit low;
          r1 = dropWhile is_ascii_digit low;
          has_dot = (r1 \<noteq> [] \<and> hd r1 = CHR ''.'');
          fracpart = (if has_dot then takeWhile is_ascii_digit (tl r1) else []);
          r2 = (if has_dot then dropWhile is_ascii_digit (tl r1) else r1)
      in if intpart = [] \<and> fracpart = [] then None
         else
           (case parse_exponent r2 of
              None \<Rightarrow> None
            | Some ex \<Rightarrow>
                Some (Dec sg (nat_of_digits (intpart @ fracpart)) (ex - int (length fracpart)))))"

definition parse_decimal :: "string \<Rightarrow> decimal option" where
  "parse_decimal s =
     (let t = filter (\<lambda>c. c \<noteq> CHR ''_'') (py_strip s);
          sg = (t \<noteq> [] \<and> hd t = CHR ''-'');
          body = (if t \<noteq> [] \<and> (hd t = CHR ''-'' \<or> hd t = CHR ''+'') then tl t else t);
          low = map ascii_lower body
      in if low = ''inf'' \<or> low = ''infinity'' then Some (Infinity sg)
         else if take 3 low = ''nan'' \<and> list_all is_ascii_digit (drop 3 low) then Some QNaN
         else if take 4 low = ''snan'' \<and> list_all is_ascii_digit (drop 4 low) then Some SNaN
         else parse_number sg low)"

definition decimal_of_str :: "string \<Rightarrow> exn + decimal" where
  "decimal_of_str s = (case parse_decimal s of None \<Rightarrow> Inl InvalidOperation | Some d \<Rightarrow> Inr d)"

subsection \<open>Formatting with \<^verbatim>\<open>:.2f\<close>\<close>

text \<open>The character of a digit \<open>d < 10\<close>.\<close>

definition digit_char :: "nat \<Rightarrow> char" where
  "digit_char d = ''0123456789'' ! d"

fun str_nat :: "nat \<Rightarrow> string" where
  "str_nat n = (if n < 10 then [digit_char n] else str_nat (n div 10) @ [digit_char (n mod 10)])"

declare str_nat.simps [simp del]

text \<open>The coefficient of a finite decimal brought to the exponent \<open>-2\<close>, rounding half to
  even when digits are lost (the precision of the context plays no part here).\<close>

definition rescale2 :: "nat \<Rightarrow> int \<Rightarrow> nat" where
  "rescale2 c e =
     (if - 2 \<le> e then c * 10 ^ nat (e + 2) else round_half_even c (nat (- 2 - e)))"

fun format_2f :: "decimal \<Rightarrow> string" where
  "format_2f (Dec sg c e) =
     (let q = rescale2 c e
      in (if sg then ''-'' else []) @ str_nat (q div 100) @ ''.'' @
         [digit_char (q mod 100 div 10), digit_char (q mod 10)])"
| "format_2f (Infinity sg) = (if sg then ''-'' else []) @ ''Infinity''"
| "format_2f QNaN = ''NaN''"
| "format_2f SNaN = ''sNaN''"

subsection \<open>Monetary normaliser \<^verbatim>\<open>_to_decimal\<close>\<close>

text \<open>
  The rewriting of the text (source lines 33 to 36): strip, then, when both a comma and
  a point occur, remove every point, then turn every comma into a point.
\<close>

definition normalize_format :: "string \<Rightarrow> string" where
  "normalize_format value_str =
     (let v1 = py_strip value_str;
          v2 = (if CHR '','' \<in> set v1 \<and> CHR ''.'' \<in> set v1
                then filter (\<lambda>c. c \<noteq> CHR ''.'') v1 else v1)
      in map (\<lambda>c. if c = CHR '','' then CHR ''.'' else c) v2)"

text \<open>
  \<^verbatim>\<open>_to_decimal\<close>. The argument is \<open>None\<close> for Python's \<^verbatim>\<open>None\<close>. A falsy argument
  gives \<^verbatim>\<open>Decimal('0.0')\<close>; otherwise the rewritten text goes to the constructor, whose
  \<^verbatim>\<open>InvalidOperation\<close> is not caught here.
\<close>

definition to_decimal :: "string option \<Rightarrow> exn + decimal" where
  "to_decimal value_str =
     (case value_str of
        None \<Rightarrow> Inr (Dec False 0 (- 1))
      | Some s \<Rightarrow> if s = [] then Inr (Dec False 0 (- 1)) else decimal_of_str (normalize_format s))"

subsection \<open>Records decoded from JSON\<close>

text \<open>
  The audit reads a dictionary decoded from JSON. A key is absent, holds \<^verbatim>\<open>null\<close>, or
  holds a value; the three are told apart because \<^verbatim>\<open>d.get(k, default)\<close> returns the
  default only for an absent key. The fields read by the audit hold text, as the XML
  extractor produces them; other JSON values in their place are outside the model.
\<close>

datatype 'a jopt = Absent | Null | Val 'a

text \<open>\<^verbatim>\<open>d.get(k)\<close> taken as a condition: true for a non-empty text only.\<close>

fun truthy :: "string jopt \<Rightarrow> bool" where
  "truthy (Val s) = (s \<noteq> [])"
| "truthy _ = False"

text \<open>\<^verbatim>\<open>d.get(k, default)\<close>; \<open>None\<close> is Python's \<^verbatim>\<open>None\<close>.\<close>

fun get_default :: "'a jopt \<Rightarrow> 'a \<Rightarrow> 'a option" where
  "get_default Absent d = Some d"
| "get_default Null d = None"
| "get_default (Val v) d = Some v"

text \<open>
  The tax block of an item is read along the path
  \<^verbatim>\<open>imposto / IPI / IPITrib / pIPI\<close>: the field \<open>imposto\<close> holds the entry \<^verbatim>\<open>IPI\<close> of
  that dictionary, which holds the entry \<^verbatim>\<open>IPITrib\<close>, which holds the text of
  \<^verbatim>\<open>pIPI\<close>.
\<close>

type_synonym ipitrib = "string jopt"
type_synonym ipi = "ipitrib jopt"
type_synonym imposto_dict = "ipi jopt"

record item =
  codigo :: "string jopt"
  ncm :: "string jopt"
  cfop :: "string jopt"
  valor_total :: "string jopt"
  imposto :: "imposto_dict jopt"

record fiscal_record =
  erro :: "string jopt"
  formato :: "string jopt"
  numero :: "string jopt"
  data_emissao :: "string jopt"
  emitente_cnpj :: "string jopt"
  destinatario_cnpj_cpf :: "string jopt"
  valor_total_nota :: "string jopt"
  discriminacao_servicos :: "string jopt"
  itens :: "item list jopt"

text \<open>
  The reference lookup \<^verbatim>\<open>consultar_ncm\<close> lives outside the module; the audit takes it
  as a parameter. It returns nothing, or a row with the three entries the audit reads,
  each taken as text (the rate is read through \<^verbatim>\<open>_to_decimal\<close>).
\<close>

record ncm_row =
  ncm_encontrado :: string
  descricao :: string
  aliquota :: string

type_synonym ncm_lookup = "string \<Rightarrow> ncm_row option"

subsection \<open>Audit messages\<close>

text \<open>
  Each message of the source is a constructor that carries the values the source
  interpolates into the text. An item prefix \<^verbatim>\<open>Item {i} ({codigo}) - \<close> is the pair of
  the position and of \<^verbatim>\<open>item.get('codigo', 'S/C')\<close>.
\<close>

type_synonym item_prefix = "nat \<times> string option"

datatype message =
    OcrCnpjEmitenteNaoInformado
      \<comment> \<open>CNPJ do emitente nao informado.\<close>
  | OcrCnpjEmitenteInvalido string
      \<comment> \<open>CNPJ do emitente '...' e invalido.\<close>
  | OcrDestinatarioNaoInformado
      \<comment> \<open>CPF/CNPJ do destinatario (tomador) nao informado.\<close>
  | OcrCnpjDestinatarioInvalido string
      \<comment> \<open>CNPJ do destinatario '...' e invalido.\<close>
  | OcrCpfDestinatarioInvalido string
      \<comment> \<open>CPF do destinatario '...' e invalido.\<close>
  | OcrNumeroNaoInformado
      \<comment> \<open>Numero da nota nao informado.\<close>
  | OcrDataEmissaoNaoInformada
      \<comment> \<open>Data de emissao nao informada.\<close>
  | OcrValorTotalNaoInformado
      \<comment> \<open>Valor total da nota nao informado.\<close>
  | OcrDiscriminacaoNaoInformada
      \<comment> \<open>Discriminacao dos servicos nao informada ou vazia.\<close>
  | NumeroNaoInformado
      \<comment> \<open>Numero do documento nao informado.\<close>
  | CnpjEmitenteInvalido "string option"
      \<comment> \<open>CNPJ do emitente '...' e invalido ou nao informado.\<close>
  | SemItens
      \<comment> \<open>O documento nao contem itens.\<close>
  | ItemNcmNaoInformado item_prefix
      \<comment> \<open>(prefix) NCM nao informado.\<close>
  | ItemNcmInvalido item_prefix string
      \<comment> \<open>(prefix) NCM '...' e invalido ou nao foi encontrado na Tabela TIPI.\<close>
  | ItemIpiDiverge item_prefix decimal decimal
      \<comment> \<open>(prefix) Aliquota de IPI (...%) diverge da Tabela TIPI (...%).\<close>
  | ItemIpiNaoValidado item_prefix
      \<comment> \<open>(prefix) Nao foi possivel validar a aliquota de IPI. Valor invalido no documento.\<close>
  | ItemCfopInvalido item_prefix "string option"
      \<comment> \<open>(prefix) CFOP '...' nao consta na lista de codigos validos.\<close>
  | ItemValorTotalInvalido item_prefix
      \<comment> \<open>(prefix) Contem valor total invalido.\<close>
  | SomaDifere string string
      \<comment> \<open>A soma dos itens (...) difere do valor total da nota (...).\<close>

subsection \<open>OCR audit \<^verbatim>\<open>_auditar_dados_nfs_ocr\<close>\<close>

text \<open>The issuer check (source lines 77 to 80).\<close>

fun ocr_emitente :: "string jopt \<Rightarrow> message list" where
  "ocr_emitente (Val s) =
     (if s = [] then [OcrCnpjEmitenteNaoInformado]
      else if \<not> validar_cnpj s then [OcrCnpjEmitenteInvalido s] else [])"
| "ocr_emitente _ = [OcrCnpjEmitenteNaoInformado]"

text \<open>The recipient check (source lines 81 to 87): the pair of the errors and of the
  warnings it adds.\<close>

fun ocr_destinatario :: "string jopt \<Rightarrow> message list \<times> message list" where
  "ocr_destinatario (Val dest_doc) =
     (if dest_doc = [] then ([], [OcrDestinatarioNaoInformado])
      else if length (filter py_isdigit dest_doc) > 11 \<and> \<not> validar_cnpj dest_doc
        then ([OcrCnpjDestinatarioInvalido dest_doc], [])
      else if length (filter py_isdigit dest_doc) \<le> 11 \<and> \<not> validar_cpf dest_doc
        then ([OcrCpfDestinatarioInvalido dest_doc], [])
      else ([], []))"
| "ocr_destinatario _ = ([], [OcrDestinatarioNaoInformado])"

text \<open>\<^verbatim>\<open>_auditar_dados_nfs_ocr\<close>: the pair \<^verbatim>\<open>(errors, warnings)\<close>, each in the order of
  the appends.\<close>

definition auditar_dados_nfs_ocr :: "fiscal_record \<Rightarrow> message list \<times> message list" where
  "auditar_dados_nfs_ocr dados =
     (let dest = ocr_destinatario (destinatario_cnpj_cpf dados)
      in (ocr_emitente (emitente_cnpj dados) @ fst dest
            @ (if \<not> truthy (numero dados) then [OcrNumeroNaoInformado] else [])
            @ (if \<not> truthy (valor_total_nota dados) then [OcrValorTotalNaoInformado] else []),
          snd dest
            @ (if \<not> truthy (data_emissao dados) then [OcrDataEmissaoNaoInformada] else [])
            @ (if \<not> truthy (discriminacao_servicos dados)
               then [OcrDiscriminacaoNaoInformada] else [])))"

subsection \<open>Structured audit: the item loop\<close>

text \<open>Sequencing of steps that may raise: the first exception ends the computation.\<close>

definition bind_exn :: "exn + 'a \<Rightarrow> ('a \<Rightarrow> exn + 'b) \<Rightarrow> exn + 'b" where
  "bind_exn m f = (case m of Inl ex \<Rightarrow> Inl ex | Inr x \<Rightarrow> f x)"

text \<open>\<^verbatim>\<open>try: ... except (InvalidOperation, TypeError): ...\<close>: the handler replaces the
  two exceptions it names; any other passes through.\<close>

definition try_except :: "exn + 'a \<Rightarrow> 'a \<Rightarrow> exn + 'a" where
  "try_except m handler =
     (case m of
        Inl ex \<Rightarrow> if ex = InvalidOperation \<or> ex = TypeError then Inr handler else Inl ex
      | Inr x \<Rightarrow> Inr x)"

text \<open>The local variables of the audit that the loop updates.\<close>

record audit_state =
  issues :: "message list"
  warnings :: "message list"
  ncm_info :: "(string option \<times> ncm_row) list"
  calculated_sum :: decimal

text \<open>
  \<^verbatim>\<open>item.get('imposto', {}).get('IPI', {}).get('IPITrib', {}).get('pIPI')\<close>: an absent
  key gives the empty dictionary and in the end \<^verbatim>\<open>None\<close>; a \<^verbatim>\<open>null\<close> on the way
  raises \<^verbatim>\<open>AttributeError\<close>.
\<close>

definition get_pIPI :: "imposto_dict jopt \<Rightarrow> exn + string option" where
  "get_pIPI imp =
     (case imp of
        Absent \<Rightarrow> Inr None
      | Null \<Rightarrow> Inl AttributeError
      | Val d_ipi \<Rightarrow>
          (case d_ipi of
             Absent \<Rightarrow> Inr None
           | Null \<Rightarrow> Inl AttributeError
           | Val d_trib \<Rightarrow>
               (case d_trib of
                  Absent \<Rightarrow> Inr None
                | Null \<Rightarrow> Inl AttributeError
                | Val p \<Rightarrow> (case p of Val s \<Rightarrow> Inr (Some s) | _ \<Rightarrow> Inr None))))"

text \<open>The rate comparison (source lines 140 to 148): the warnings it adds.\<close>

definition check_ipi :: "item_prefix \<Rightarrow> imposto_dict jopt \<Rightarrow> ncm_row \<Rightarrow> exn + message list" where
  "check_ipi item_prefix imp resultado_ncm =
     try_except
       (bind_exn (get_pIPI imp) (\<lambda>pIPI_doc_str.
          case pIPI_doc_str of
            None \<Rightarrow> Inr []
          | Some s \<Rightarrow>
              bind_exn (to_decimal (Some s)) (\<lambda>pIPI_doc.
              bind_exn (to_decimal (Some (aliquota resultado_ncm))) (\<lambda>pIPI_tipi.
              bind_exn (dec_ne pIPI_doc pIPI_tipi) (\<lambda>differs.
                Inr (if differs then [ItemIpiDiverge item_prefix pIPI_doc pIPI_tipi] else []))))))
       [ItemIpiNaoValidado item_prefix]"

text \<open>The classification check of one item (source lines 126 to 148).\<close>

definition ncm_step :: "ncm_lookup \<Rightarrow> item_prefix \<Rightarrow> item \<Rightarrow> audit_state \<Rightarrow> exn + audit_state" where
  "ncm_step consultar_ncm item_prefix it st =
     (case ncm it of
        Val code \<Rightarrow>
          if code = [] then Inr (st\<lparr>issues := issues st @ [ItemNcmNaoInformado item_prefix]\<rparr>)
          else
            (case consultar_ncm code of
               None \<Rightarrow> Inr (st\<lparr>issues := issues st @ [ItemNcmInvalido item_prefix code]\<rparr>)
             | Some resultado_ncm \<Rightarrow>
                 bind_exn (check_ipi item_prefix (imposto it) resultado_ncm) (\<lambda>ws.
                   Inr (st\<lparr>ncm_info := ncm_info st @ [(snd item_prefix, resultado_ncm)],
                           warnings := warnings st @ ws\<rparr>)))
      | _ \<Rightarrow> Inr (st\<lparr>issues := issues st @ [ItemNcmNaoInformado item_prefix]\<rparr>))"

text \<open>The allow-list of transaction codes (source line 72).\<close>

definition VALID_CFOP_CODES :: "string list" where
  "VALID_CFOP_CODES =
     [''6102'', ''1101'', ''1102'', ''1201'', ''1202'', ''1401'', ''1403'', ''1904'', ''1916'',
      ''2101'', ''2102'', ''2201'', ''2202'', ''2401'', ''2403'', ''2904'', ''2916'', ''3101'',
      ''3102'', ''3201'', ''3202'', ''5101'', ''5102'', ''5116'', ''5117'', ''5401'', ''5403'',
      ''5405'', ''5656'', ''5904'', ''5929'', ''6101'', ''6108'', ''6401'', ''6403'', ''6404'',
      ''6656'', ''6904'', ''6929'', ''7101'', ''7102'', ''7127'']"

text \<open>The transaction-code check (source lines 150 and 151).\<close>

fun cfop_valido :: "string jopt \<Rightarrow> bool" where
  "cfop_valido (Val s) = (s \<noteq> [] \<and> s \<in> set VALID_CFOP_CODES)"
| "cfop_valido _ = False"

definition cfop_step :: "item_prefix \<Rightarrow> item \<Rightarrow> audit_state \<Rightarrow> audit_state" where
  "cfop_step item_prefix it st =
     (if \<not> cfop_valido (cfop it)
      then st\<lparr>warnings := warnings st @ [ItemCfopInvalido item_prefix (get_default (cfop it) [])]\<rparr>
      else st)"

text \<open>
  The accumulation (source lines 153 to 156). The handler catches the
  \<^verbatim>\<open>InvalidOperation\<close> of the normaliser and of the addition and leaves the sum as it
  was; an \<^verbatim>\<open>Overflow\<close> of the addition is not caught.
\<close>

definition sum_step :: "item_prefix \<Rightarrow> item \<Rightarrow> audit_state \<Rightarrow> exn + audit_state" where
  "sum_step item_prefix it st =
     try_except
       (bind_exn (to_decimal (get_default (valor_total it) ''0'')) (\<lambda>v.
        bind_exn (dec_add (calculated_sum st) v) (\<lambda>total.
          Inr (st\<lparr>calculated_sum := total\<rparr>))))
       (st\<lparr>issues := issues st @ [ItemValorTotalInvalido item_prefix]\<rparr>)"

text \<open>One turn of the loop, for the item at position \<open>i\<close> (counted from 1).\<close>

definition audit_item :: "ncm_lookup \<Rightarrow> nat \<Rightarrow> item \<Rightarrow> audit_state \<Rightarrow> exn + audit_state" where
  "audit_item consultar_ncm i it st =
     (let item_prefix = (i, get_default (codigo it) ''S/C'')
      in bind_exn (ncm_step consultar_ncm item_prefix it st) (\<lambda>st1.
           sum_step item_prefix it (cfop_step item_prefix it st1)))"

fun audit_items :: "ncm_lookup \<Rightarrow> nat \<Rightarrow> item list \<Rightarrow> audit_state \<Rightarrow> exn + audit_state" where
  "audit_items consultar_ncm i [] st = Inr st"
| "audit_items consultar_ncm i (it # its) st =
     bind_exn (audit_item consultar_ncm i it st) (audit_items consultar_ncm (Suc i) its)"

subsection \<open>Structured audit: header checks and reconciliation\<close>

text \<open>The state before the loop (source lines 116 to 122). \<^verbatim>\<open>validar_cnpj\<close> is called
  only on a non-empty text.\<close>

definition header_issues :: "fiscal_record \<Rightarrow> message list" where
  "header_issues dados =
     (if \<not> truthy (numero dados) then [NumeroNaoInformado] else [])
     @ (if \<not> truthy (emitente_cnpj dados)
           \<or> \<not> validar_cnpj (case emitente_cnpj dados of Val s \<Rightarrow> s | _ \<Rightarrow> [])
        then [CnpjEmitenteInvalido (get_default (emitente_cnpj dados) [])] else [])"

definition initial_state :: "fiscal_record \<Rightarrow> item list \<Rightarrow> audit_state" where
  "initial_state dados items =
     \<lparr>issues = header_issues dados,
      warnings = (if items = [] then [SemItens] else []),
      ncm_info = [],
      calculated_sum = Dec False 0 (- 2)\<rparr>"

text \<open>
  The reconciliation (source lines 158 to 160). Nothing here is inside a
  \<^verbatim>\<open>try\<close>: the exception of the normaliser, of the subtraction or of the comparison
  leaves the audit.
\<close>

definition reconcile :: "fiscal_record \<Rightarrow> audit_state \<Rightarrow> exn + audit_state" where
  "reconcile dados st =
     bind_exn (to_decimal (get_default (valor_total_nota dados) ''0'')) (\<lambda>doc_total.
     bind_exn (dec_sub (calculated_sum st) doc_total) (\<lambda>diff.
     bind_exn (dec_abs diff) (\<lambda>adiff.
     bind_exn (dec_gt adiff (Dec False 1 (- 2))) (\<lambda>exceeds.
       Inr (if exceeds
            then st\<lparr>issues := issues st @
                   [SomaDifere (format_2f (calculated_sum st)) (format_2f doc_total)]\<rparr>
            else st)))))"

text \<open>The \<^verbatim>\<open>else\<close> branch of the dispatch (source lines 116 to 160). Iterating over a
  \<^verbatim>\<open>null\<close> item list raises \<^verbatim>\<open>TypeError\<close>.\<close>

definition audit_structured :: "ncm_lookup \<Rightarrow> fiscal_record \<Rightarrow> exn + audit_state" where
  "audit_structured consultar_ncm dados =
     (case get_default (itens dados) [] of
        None \<Rightarrow> Inl TypeError
      | Some items \<Rightarrow>
          bind_exn (audit_items consultar_ncm 1 items (initial_state dados items))
            (reconcile dados))"

subsection \<open>The audit engine\<close>

datatype status = StatusError | StatusWarning | StatusSuccess

record audit_result =
  status_auditoria :: status
  erros_auditoria :: "message list"
  avisos_auditoria :: "message list"
  info_ncm :: "(string option \<times> ncm_row) list"

text \<open>\<^verbatim>\<open>'error' if issues else ('warning' if warnings else 'success')\<close> (source line 162).\<close>

definition derive_status :: "message list \<Rightarrow> message list \<Rightarrow> status" where
  "derive_status iss ws =
     (if iss \<noteq> [] then StatusError else if ws \<noteq> [] then StatusWarning else StatusSuccess)"

definition make_result :: "message list \<Rightarrow> message list \<Rightarrow> (string option \<times> ncm_row) list \<Rightarrow> audit_result" where
  "make_result iss ws info =
     \<lparr>status_auditoria = derive_status iss ws, erros_auditoria = iss,
      avisos_auditoria = ws, info_ncm = info\<rparr>"

text \<open>
  What the audit yields: the early return on an extraction failure, with the reason
  \<^verbatim>\<open>dados['erro']\<close> that the message wraps (\<open>None\<close> for \<^verbatim>\<open>null\<close>), or the audit
  result.
\<close>

datatype outcome = ExtractionFailed "string option" | Audited audit_result

text \<open>\<^verbatim>\<open>dados.get('formato') in ['ocr', 'ocr_ia']\<close>.\<close>

definition is_ocr_format :: "string jopt \<Rightarrow> bool" where
  "is_ocr_format f = (f = Val ''ocr'' \<or> f = Val ''ocr_ia'')"

text \<open>The two branches of the dispatch, each followed by the status (source lines 113
  to 162).\<close>

definition ocr_outcome :: "fiscal_record \<Rightarrow> exn + outcome" where
  "ocr_outcome dados =
     (let ew = auditar_dados_nfs_ocr dados
      in Inr (Audited (make_result (fst ew) (snd ew) [])))"

definition structured_outcome :: "ncm_lookup \<Rightarrow> fiscal_record \<Rightarrow> exn + outcome" where
  "structured_outcome consultar_ncm dados =
     bind_exn (audit_structured consultar_ncm dados) (\<lambda>st.
       Inr (Audited (make_result (issues st) (warnings st) (ncm_info st))))"

text \<open>
  \<^verbatim>\<open>auditar_e_salvar_dados_fiscais\<close>, source lines 105 to 162: the guard on the key
  \<^verbatim>\<open>erro\<close>, the dispatch on the format and the status.
\<close>

definition auditar :: "ncm_lookup \<Rightarrow> fiscal_record \<Rightarrow> exn + outcome" where
  "auditar consultar_ncm dados =
     (case erro dados of
        Val reason \<Rightarrow> Inr (ExtractionFailed (Some reason))
      | Null \<Rightarrow> Inr (ExtractionFailed None)
      | Absent \<Rightarrow>
          if is_ocr_format (formato dados) then ocr_outcome dados
          else structured_outcome consultar_ncm dados)"

subsection \<open>The check digits as the specification words them\<close>

text \<open>The value of a digit character.\<close>

definition digit_value :: "char \<Rightarrow> nat" where
  "digit_value c = (of_char c :: nat) - 48"

text \<open>
  The check digit of a list of digit values under a list of weights: the weighted sum
  modulo 11, mapped to 0 when the remainder is below 2 and to 11 minus the remainder
  otherwise.
\<close>

definition mod11_check_digit :: "nat list \<Rightarrow> nat list \<Rightarrow> nat" where
  "mod11_check_digit pesos ds =
     (let r = sum_list (map (\<lambda>(d, p). d * p) (zip ds pesos)) mod 11
      in if r < 2 then 0 else 11 - r)"

text \<open>All the elements of a list are the same.\<close>

definition all_identical :: "'a list \<Rightarrow> bool" where
  "all_identical xs = (\<forall>x \<in> set xs. \<forall>y \<in> set xs. x = y)"

subsection \<open>The value of a decimal, and differences the context holds exactly\<close>

text \<open>The rational number a finite decimal stands for (and 0 for the others, which the
  statements below exclude).\<close>

fun dec_value :: "decimal \<Rightarrow> rat" where
  "dec_value (Dec sg c e) = (if sg then - 1 else 1) * of_nat c * 10 powi e"
| "dec_value _ = 0"

text \<open>
  Two finite decimals whose difference, written at the smaller of their exponents, has
  at most 28 digits and an exponent within the range of the context: the subtraction of
  the default context is then exact.
\<close>

fun difference_fits :: "decimal \<Rightarrow> decimal \<Rightarrow> bool" where
  "difference_fits (Dec s1 c1 e1) (Dec s2 c2 e2) =
     (let e = min e1 e2
      in Etiny \<le> e \<and> e \<le> Etop
         \<and> \<bar>units_at e s1 c1 e1 - units_at e s2 c2 e2\<bar> < 10 ^ 28)"
| "difference_fits _ _ = False"

subsection \<open>Line totals and bounded amounts\<close>

text \<open>The normalised total of an item, as the item loop reads it (source line 154), its
  value when it parses (an item whose total is not a number contributes nothing to the
  sum), and the exact sum of the parsed line totals of a list of items.\<close>

definition line_total :: "item \<Rightarrow> exn + decimal" where
  "line_total it = to_decimal (get_default (valor_total it) ''0'')"

definition parsed_value :: "item \<Rightarrow> rat" where
  "parsed_value it = (case line_total it of Inl _ \<Rightarrow> 0 | Inr v \<Rightarrow> dec_value v)"

definition sum_of_line_totals :: "item list \<Rightarrow> rat" where
  "sum_of_line_totals items = sum_list (map parsed_value items)"

text \<open>
  A finite decimal with at most \<open>k\<close> decimal places and of magnitude at most
  \<open>B * 10 ^ (- k)\<close>; and the same for a running sum, whose exponent is never positive
  (the sum starts as 0.00 and an addition keeps the smaller exponent).
\<close>

fun amount_within :: "nat \<Rightarrow> nat \<Rightarrow> decimal \<Rightarrow> bool" where
  "amount_within k B (Dec sg c e) = (- int k \<le> e \<and> int c * 10 ^ nat (e + int k) \<le> int B)"
| "amount_within k B _ = False"

fun sum_within :: "nat \<Rightarrow> nat \<Rightarrow> decimal \<Rightarrow> bool" where
  "sum_within k B (Dec sg c e) =
     (- int k \<le> e \<and> e \<le> 0 \<and> int c * 10 ^ nat (e + int k) \<le> int B)"
| "sum_within k B _ = False"

subsection \<open>Plain numerals\<close>

text \<open>A character of a numeral written with digits and points only.\<close>

definition plain_char :: "char \<Rightarrow> bool" where
  "plain_char c = (is_ascii_digit c \<or> c = CHR ''.'')"

subsection \<open>Example records\<close>

text \<open>A reference table that knows one classification code, and one that knows none.\<close>

definition tabela_exemplo :: ncm_lookup where
  "tabela_exemplo code =
     (if code = ''84713012''
      then Some \<lparr>ncm_encontrado = ''84713012'', descricao = ''Maquinas portateis'', aliquota = ''0''\<rparr>
      else None)"

definition tabela_vazia :: ncm_lookup where
  "tabela_vazia code = None"

definition item_exemplo :: item where
  "item_exemplo =
     \<lparr>codigo = Val ''P1'', ncm = Val ''84713012'', cfop = Val ''5102'',
      valor_total = Val ''100.00'', imposto = Absent\<rparr>"

text \<open>A structured record as the XML extractor writes it: one item of total 100.00 and
  the declared total 100.00.\<close>

definition nota_exemplo :: fiscal_record where
  "nota_exemplo =
     \<lparr>erro = Absent, formato = Absent, numero = Val ''1001'',
      data_emissao = Val ''2024-01-15'', emitente_cnpj = Val ''11222333000181'',
      destinatario_cnpj_cpf = Val ''52998224725'', valor_total_nota = Val ''100.00'',
      discriminacao_servicos = Absent, itens = Val [item_exemplo]\<rparr>"

text \<open>The record an extractor returns on failure: the key \<^verbatim>\<open>erro\<close> alone.\<close>

definition nota_extracao_falhou :: fiscal_record where
  "nota_extracao_falhou =
     \<lparr>erro = Val ''Falha ao processar XML'', formato = Absent, numero = Absent,
      data_emissao = Absent, emitente_cnpj = Absent, destinatario_cnpj_cpf = Absent,
      valor_total_nota = Absent, discriminacao_servicos = Absent, itens = Absent\<rparr>"

text \<open>An OCR record with every checked field but the issue date.\<close>

definition nota_ocr_sem_data :: fiscal_record where
  "nota_ocr_sem_data =
     \<lparr>erro = Absent, formato = Val ''ocr_ia'', numero = Val ''77'',
      data_emissao = Absent, emitente_cnpj = Val ''11.222.333/0001-81'',
      destinatario_cnpj_cpf = Val ''529.982.247-25'', valor_total_nota = Val ''1.500,00'',
      discriminacao_servicos = Val ''Consultoria'', itens = Absent\<rparr>"

text \<open>The state of the audit after the item loop on the example record: one item
  looked up, the sum 100.00.\<close>

definition estado_exemplo :: audit_state where
  "estado_exemplo =
     \<lparr>issues = [], warnings = [],
      ncm_info = [(Some ''P1'', \<lparr>ncm_encontrado = ''84713012'',
        descricao = ''Maquinas portateis'', aliquota = ''0''\<rparr>)],
      calculated_sum = Dec False 10000 (- 2)\<rparr>"

text \<open>A record with two items of 50.00 each and the declared total 100.00, and the state
  of the audit after the item loop on it.\<close>

definition itens_dois :: "item list" where
  "itens_dois =
     [item_exemplo\<lparr>valor_total := Val ''50.00''\<rparr>,
      item_exemplo\<lparr>codigo := Val ''P2'', valor_total := Val ''50.00''\<rparr>]"

definition nota_dois_itens :: fiscal_record where
  "nota_dois_itens = nota_exemplo\<lparr>itens := Val itens_dois\<rparr>"

definition estado_dois_itens :: audit_state where
  "estado_dois_itens =
     \<lparr>issues = [], warnings = [],
      ncm_info =
        [(Some ''P1'', \<lparr>ncm_encontrado = ''84713012'',
            descricao = ''Maquinas portateis'', aliquota = ''0''\<rparr>),
         (Some ''P2'', \<lparr>ncm_encontrado = ''84713012'',
            descricao = ''Maquinas portateis'', aliquota = ''0''\<rparr>)],
      calculated_sum = Dec False 10000 (- 2)\<rparr>"

section \<open>Properties\<close>

subsection \<open>Rules for evaluating the definitions on concrete inputs\<close>

lemmas text_eval = py_isdigit_def py_int_char_def py_isspace_def py_strip_def is_ascii_digit_def
  nat_of_digits_def ascii_lower_def

lemmas parse_eval = parse_exponent_def parse_number_def parse_decimal_def decimal_of_str_def
  normalize_format_def to_decimal_def

lemmas decimal_eval = dec_fix_def units_at_def ndigits.simps prec_def Etop_def Etiny_def Emax_def
  Emin_def round_half_even_def dec_sub_def dec_gt_def dec_ne_def rescale2_def str_nat.simps
  digit_char_def

lemmas validator_eval = validar_cnpj_def validar_cpf_def pesos_dv1_def pesos_dv2_def dv_cnpj_def
  dv_cpf_def

lemmas engine_eval = bind_exn_def try_except_def get_pIPI_def check_ipi_def ncm_step_def
  cfop_step_def sum_step_def audit_item_def header_issues_def initial_state_def reconcile_def
  audit_structured_def derive_status_def make_result_def is_ocr_format_def auditar_def
  ocr_outcome_def structured_outcome_def auditar_dados_nfs_ocr_def VALID_CFOP_CODES_def

lemmas example_eval = tabela_exemplo_def tabela_vazia_def item_exemplo_def nota_exemplo_def
  nota_extracao_falhou_def nota_ocr_sem_data_def

text \<open>The example record passes the structured audit without a remark.\<close>

lemma nota_exemplo_success:
  "auditar tabela_exemplo nota_exemplo =
     Inr (Audited \<lparr>status_auditoria = StatusSuccess, erros_auditoria = [],
       avisos_auditoria = [],
       info_ncm = [(Some ''P1'', \<lparr>ncm_encontrado = ''84713012'',
         descricao = ''Maquinas portateis'', aliquota = ''0''\<rparr>)]\<rparr>)"
  by (simp add: example_eval engine_eval text_eval parse_eval decimal_eval validator_eval)

subsection \<open>Extraction failure\<close>

text \<open>
  Claim C7. A record that carries the extraction-failure key \<^verbatim>\<open>erro\<close> makes the audit
  return at once with the failure outcome that wraps the reason, and no audit rule runs:
  the outcome is the same for every reference table and for every other content of the
  record.
\<close>

theorem extraction_failure_short_circuits:
  "erro dados \<noteq> Absent \<Longrightarrow>
     auditar consultar_ncm dados = Inr (ExtractionFailed (get_default (erro dados) []))
     \<and> (\<forall>consultar_ncm' dados'. erro dados' = erro dados \<longrightarrow>
           auditar consultar_ncm' dados' = auditar consultar_ncm dados)"
  by (cases "erro dados") (simp_all add: auditar_def)

theorem extraction_failure_short_circuits_witness:
  "erro nota_extracao_falhou \<noteq> Absent
   \<and> auditar tabela_exemplo nota_extracao_falhou
       = Inr (ExtractionFailed (Some ''Falha ao processar XML''))
   \<and> auditar tabela_vazia (nota_exemplo\<lparr>erro := Val ''Falha ao processar XML''\<rparr>)
       = auditar tabela_exemplo nota_extracao_falhou"
proof -
  have h: "erro nota_extracao_falhou \<noteq> Absent"
    by (simp add: nota_extracao_falhou_def)
  have e: "erro (nota_exemplo\<lparr>erro := Val ''Falha ao processar XML''\<rparr>)
             = erro nota_extracao_falhou"
    by (simp add: nota_extracao_falhou_def)
  from extraction_failure_short_circuits [OF h, of tabela_exemplo] e h show ?thesis
    by (simp add: nota_extracao_falhou_def)
qed

subsection \<open>Status\<close>

text \<open>
  Claim C2. Whenever the audit runs to completion on a record, the status of the result
  is \<open>error\<close> exactly when the list of errors is not empty, \<open>warning\<close> exactly when the
  list of errors is empty and the list of warnings is not, and \<open>success\<close> exactly when
  both are empty.
\<close>

theorem status_reflects_lists:
  "auditar consultar_ncm dados = Inr (Audited res) \<Longrightarrow>
     (status_auditoria res = StatusError \<longleftrightarrow> erros_auditoria res \<noteq> [])
     \<and> (status_auditoria res = StatusWarning \<longleftrightarrow>
          erros_auditoria res = [] \<and> avisos_auditoria res \<noteq> [])
     \<and> (status_auditoria res = StatusSuccess \<longleftrightarrow>
          erros_auditoria res = [] \<and> avisos_auditoria res = [])"
  by (auto simp: auditar_def ocr_outcome_def structured_outcome_def bind_exn_def make_result_def
        derive_status_def Let_def split: jopt.splits if_splits sum.splits)

theorem status_reflects_lists_witness:
  "auditar tabela_exemplo nota_exemplo =
     Inr (Audited \<lparr>status_auditoria = StatusSuccess, erros_auditoria = [],
       avisos_auditoria = [],
       info_ncm = [(Some ''P1'', \<lparr>ncm_encontrado = ''84713012'',
         descricao = ''Maquinas portateis'', aliquota = ''0''\<rparr>)]\<rparr>)
   \<and> status_auditoria \<lparr>status_auditoria = StatusSuccess, erros_auditoria = [],
       avisos_auditoria = [],
       info_ncm = [(Some ''P1'', \<lparr>ncm_encontrado = ''84713012'',
         descricao = ''Maquinas portateis'', aliquota = ''0''\<rparr>)]\<rparr> = StatusSuccess"
  using status_reflects_lists [OF nota_exemplo_success] nota_exemplo_success by simp

subsection \<open>Malformed numeric fields\<close>

text \<open>
  Claim C1 says that the audit never raises on a well-formed record: every malformed
  numeric field, the declared total included, becomes an issue entry. The code does
  this for the total of an item (second conjunct: the handler of source lines 155 and
  156 records the issue and the audit goes on), but the declared total is normalised
  outside any handler (source line 158): on the example record with the declared total
  \<^verbatim>\<open>abc\<close> the audit ends with the exception \<^verbatim>\<open>InvalidOperation\<close> and yields no
  result.
\<close>

theorem unparseable_declared_total_raises:
  "auditar tabela_exemplo (nota_exemplo\<lparr>valor_total_nota := Val ''abc''\<rparr>)
     = Inl InvalidOperation
   \<and> auditar tabela_exemplo
       (nota_exemplo\<lparr>itens := Val [item_exemplo\<lparr>valor_total := Val ''abc''\<rparr>]\<rparr>)
     = Inr (Audited \<lparr>status_auditoria = StatusError,
         erros_auditoria =
           [ItemValorTotalInvalido (1, Some ''P1''), SomaDifere ''0.00'' ''100.00''],
         avisos_auditoria = [],
         info_ncm = [(Some ''P1'', \<lparr>ncm_encontrado = ''84713012'',
           descricao = ''Maquinas portateis'', aliquota = ''0''\<rparr>)]\<rparr>)"
  by (simp add: example_eval engine_eval text_eval parse_eval decimal_eval validator_eval)

subsection \<open>Dispatch on the format\<close>

text \<open>
  Claim C10 as stated: every record whose format is not exactly \<^verbatim>\<open>ocr\<close> or
  \<^verbatim>\<open>ocr_ia\<close> goes through the structured rules. The record an extractor returns on
  failure has no format at all, yet the guard on \<^verbatim>\<open>erro\<close> returns before the dispatch:
  its outcome is the failure, not the outcome of the structured rules.
\<close>

theorem dispatch_counterexample:
  "formato nota_extracao_falhou \<noteq> Val ''ocr''
   \<and> formato nota_extracao_falhou \<noteq> Val ''ocr_ia''
   \<and> auditar tabela_vazia nota_extracao_falhou
        = Inr (ExtractionFailed (Some ''Falha ao processar XML''))
   \<and> structured_outcome tabela_vazia nota_extracao_falhou
        = Inr (Audited \<lparr>status_auditoria = StatusError,
            erros_auditoria = [NumeroNaoInformado, CnpjEmitenteInvalido (Some [])],
            avisos_auditoria = [SemItens], info_ncm = []\<rparr>)"
  by (simp add: example_eval engine_eval text_eval parse_eval decimal_eval validator_eval)

text \<open>
  Claim C10, amended: for every record that carries no extraction-failure key and whose
  format is anything but exactly \<^verbatim>\<open>ocr\<close> or \<^verbatim>\<open>ocr_ia\<close> (absent, \<^verbatim>\<open>null\<close> or any other
  text), the audit is the structured audit: header checks, item loop with classification
  lookup and transaction-code check, and reconciliation.
\<close>

theorem dispatch_structured:
  "erro dados = Absent \<Longrightarrow> formato dados \<noteq> Val ''ocr'' \<Longrightarrow> formato dados \<noteq> Val ''ocr_ia'' \<Longrightarrow>
     auditar consultar_ncm dados = structured_outcome consultar_ncm dados"
  by (simp add: auditar_def is_ocr_format_def)

theorem dispatch_structured_witness:
  "erro (nota_exemplo\<lparr>formato := Val ''OCR''\<rparr>) = Absent
   \<and> formato (nota_exemplo\<lparr>formato := Val ''OCR''\<rparr>) \<noteq> Val ''ocr''
   \<and> formato (nota_exemplo\<lparr>formato := Val ''OCR''\<rparr>) \<noteq> Val ''ocr_ia''
   \<and> auditar tabela_exemplo (nota_exemplo\<lparr>formato := Val ''OCR''\<rparr>)
        = structured_outcome tabela_exemplo (nota_exemplo\<lparr>formato := Val ''OCR''\<rparr>)"
proof -
  have 1: "erro (nota_exemplo\<lparr>formato := Val ''OCR''\<rparr>) = Absent"
    by (simp add: nota_exemplo_def)
  have 2: "formato (nota_exemplo\<lparr>formato := Val ''OCR''\<rparr>) \<noteq> Val ''ocr''"
    by simp
  have 3: "formato (nota_exemplo\<lparr>formato := Val ''OCR''\<rparr>) \<noteq> Val ''ocr_ia''"
    by simp
  from dispatch_structured [OF 1 2 3, of tabela_exemplo] 1 2 3 show ?thesis
    by blast
qed

subsection \<open>OCR audit\<close>

text \<open>
  Claim C8. An OCR record (format \<^verbatim>\<open>ocr\<close> or \<^verbatim>\<open>ocr_ia\<close>, no extraction-failure key)
  whose issuer identifier is valid, whose recipient identifier is present and valid (as
  an organisation or as an individual identifier), whose number, declared total and
  service description are present, and whose issue date is missing, is audited with
  status \<open>warning\<close>, exactly one warning (the missing issue date) and no error.
\<close>

theorem ocr_missing_issue_date:
  assumes "erro dados = Absent"
    and "formato dados = Val ''ocr'' \<or> formato dados = Val ''ocr_ia''"
    and "emitente_cnpj dados = Val emit" and "validar_cnpj emit"
    and "destinatario_cnpj_cpf dados = Val dest" and "validar_cnpj dest \<or> validar_cpf dest"
    and "truthy (numero dados)" and "truthy (valor_total_nota dados)"
    and "truthy (discriminacao_servicos dados)"
    and "\<not> truthy (data_emissao dados)"
  shows "auditar consultar_ncm dados =
           Inr (Audited \<lparr>status_auditoria = StatusWarning, erros_auditoria = [],
             avisos_auditoria = [OcrDataEmissaoNaoInformada], info_ncm = []\<rparr>)"
proof -
  have emit_ne: "emit \<noteq> []"
    using assms(4) by (auto simp: validar_cnpj_def)
  have dest_ne: "dest \<noteq> []"
    using assms(6) by (auto simp: validar_cnpj_def validar_cpf_def)
  have len: "validar_cnpj dest \<Longrightarrow> length (filter py_isdigit dest) = 14"
    "validar_cpf dest \<Longrightarrow> length (filter py_isdigit dest) = 11"
    by (auto simp: validar_cnpj_def validar_cpf_def Let_def split: if_splits)
  have dest_ok: "ocr_destinatario (Val dest) = ([], [])"
    using assms(6) dest_ne len by auto
  have emit_ok: "ocr_emitente (Val emit) = []"
    using assms(4) emit_ne by simp
  show ?thesis
    using assms emit_ok dest_ok
    by (auto simp: auditar_def is_ocr_format_def ocr_outcome_def auditar_dados_nfs_ocr_def
          make_result_def derive_status_def)
qed

theorem ocr_missing_issue_date_witness:
  "auditar tabela_vazia nota_ocr_sem_data =
     Inr (Audited \<lparr>status_auditoria = StatusWarning, erros_auditoria = [],
       avisos_auditoria = [OcrDataEmissaoNaoInformada], info_ncm = []\<rparr>)"
proof -
  have 1: "validar_cnpj ''11.222.333/0001-81''"
    by (simp add: text_eval validator_eval)
  have 2: "validar_cnpj ''529.982.247-25'' \<or> validar_cpf ''529.982.247-25''"
    by (simp add: text_eval validator_eval)
  show ?thesis
    by (rule ocr_missing_issue_date [OF _ _ _ 1 _ 2]) (simp_all add: nota_ocr_sem_data_def)
qed

subsection \<open>Identity validators\<close>

text \<open>On ASCII digits \<^verbatim>\<open>int\<close> never raises, and the weighted sum of the source is the
  weighted sum of the digit values.\<close>

lemma py_int_char_ascii: "is_ascii_digit c \<Longrightarrow> py_int_char c = Some (digit_value c)"
  by (auto simp: is_ascii_digit_def py_int_char_def digit_value_def Let_def split: if_splits)

lemma digit_value_inj:
  "is_ascii_digit c \<Longrightarrow> is_ascii_digit c' \<Longrightarrow> digit_value c = digit_value c' \<Longrightarrow> c = c'"
proof -
  assume a: "is_ascii_digit c" "is_ascii_digit c'" "digit_value c = digit_value c'"
  then have b: "48 \<le> (of_char c :: nat)" "48 \<le> (of_char c' :: nat)"
    "(of_char c :: nat) - 48 = of_char c' - 48"
    by (simp_all add: is_ascii_digit_def py_int_char_def digit_value_def Let_def split: if_splits)
  then have "(of_char c :: nat) = of_char c'"
    by linarith
  then show "c = c'" by simp
qed

lemma soma_pesos_ascii:
  "list_all is_ascii_digit ds \<Longrightarrow>
     soma_pesos ds ps = Some (sum_list (map (\<lambda>(d, p). d * p) (zip (map digit_value ds) ps)))"
  by (induction ds ps rule: soma_pesos.induct) (auto simp: py_int_char_ascii)

lemma remdups_one_iff: "xs \<noteq> [] \<Longrightarrow> length (remdups xs) = 1 \<longleftrightarrow> all_identical xs"
proof -
  assume ne: "xs \<noteq> []"
  have "length (remdups xs) = card (set xs)"
    by (simp add: length_remdups_card_conv)
  moreover have "card (set xs) = 1 \<longleftrightarrow> (\<exists>x. set xs = {x})"
    by (simp add: card_1_singleton_iff)
  moreover have "(\<exists>x. set xs = {x}) \<longleftrightarrow> all_identical xs"
  proof
    assume "\<exists>x. set xs = {x}" then show "all_identical xs"
      by (auto simp: all_identical_def)
  next
    assume ai: "all_identical xs"
    from ne have "hd xs \<in> set xs" by simp
    with ai have "set xs = {hd xs}" by (auto simp: all_identical_def)
    then show "\<exists>x. set xs = {x}" by blast
  qed
  ultimately show ?thesis by simp
qed

lemma validar_cnpj_ascii_iff:
  assumes "filter py_isdigit s = cnpj" and "length cnpj = 14" and "list_all is_ascii_digit cnpj"
  shows "validar_cnpj s \<longleftrightarrow>
           \<not> all_identical cnpj
           \<and> digit_value (cnpj ! 12) = mod11_check_digit pesos_dv1 (map digit_value (take 12 cnpj))
           \<and> digit_value (cnpj ! 13) = mod11_check_digit pesos_dv2 (map digit_value (take 13 cnpj))"
proof -
  have ne: "cnpj \<noteq> []" using assms(2) by auto
  have d12: "is_ascii_digit (cnpj ! 12)" and d13: "is_ascii_digit (cnpj ! 13)"
    using assms(2,3) by (simp_all add: list_all_length)
  have t12: "list_all is_ascii_digit (take 12 cnpj)" and t13: "list_all is_ascii_digit (take 13 cnpj)"
    using assms(3) by (simp_all add: list_all_length)
  show ?thesis
    unfolding validar_cnpj_def assms(1) Let_def
    using assms(2) remdups_one_iff [OF ne]
    by (auto simp: soma_pesos_ascii [OF t12] soma_pesos_ascii [OF t13] py_int_char_ascii [OF d12]
          py_int_char_ascii [OF d13] dv_cnpj_def mod11_check_digit_def Let_def)
qed

text \<open>
  Claim C4. Let the text strip to exactly 14 decimal digits, not all the same, whose
  13th digit is the mod-11 check digit of the first 12 under the weights
  5,4,3,2,9,8,7,6,5,4,3,2 and whose 14th digit is the mod-11 check digit of the first 13
  under the weights 6,5,4,3,2,9,8,7,6,5,4,3,2. Then the organisation-identifier
  validation returns true, and it returns false on every text that strips to the same
  digits with the 13th, or the 14th, replaced by any other digit.
\<close>

theorem validar_cnpj_check_digits:
  assumes "filter py_isdigit s = cnpj" and "length cnpj = 14"
    and "list_all is_ascii_digit cnpj" and "\<not> all_identical cnpj"
    and "digit_value (cnpj ! 12) =
           mod11_check_digit [5, 4, 3, 2, 9, 8, 7, 6, 5, 4, 3, 2] (map digit_value (take 12 cnpj))"
    and "digit_value (cnpj ! 13) =
           mod11_check_digit [6, 5, 4, 3, 2, 9, 8, 7, 6, 5, 4, 3, 2] (map digit_value (take 13 cnpj))"
  shows "validar_cnpj s
     \<and> (\<forall>s' c. is_ascii_digit c \<and> c \<noteq> cnpj ! 12 \<and> filter py_isdigit s' = cnpj[12 := c]
           \<longrightarrow> \<not> validar_cnpj s')
     \<and> (\<forall>s' c. is_ascii_digit c \<and> c \<noteq> cnpj ! 13 \<and> filter py_isdigit s' = cnpj[13 := c]
           \<longrightarrow> \<not> validar_cnpj s')"
proof (intro conjI allI impI)
  show "validar_cnpj s"
    using validar_cnpj_ascii_iff [OF assms(1,2,3)] assms(4,5,6)
    by (simp add: pesos_dv1_def pesos_dv2_def)
next
  fix s' c
  assume h: "is_ascii_digit c \<and> c \<noteq> cnpj ! 12 \<and> filter py_isdigit s' = cnpj[12 := c]"
  let ?c' = "cnpj[12 := c]"
  have len: "length ?c' = 14" using assms(2) by simp
  have asc: "list_all is_ascii_digit ?c'"
    using assms(3) h set_update_subset_insert [of cnpj _ c]
    by (auto simp: list_all_iff)
  have d12: "is_ascii_digit (cnpj ! 12)"
    using assms(2,3) by (simp add: list_all_length)
  have ne: "digit_value c \<noteq> digit_value (cnpj ! 12)"
    using h d12 digit_value_inj by blast
  have tk: "take 12 ?c' = take 12 cnpj" by simp
  have nth: "?c' ! 12 = c" using assms(2) by simp
  show "\<not> validar_cnpj s'"
    using validar_cnpj_ascii_iff [OF _ len asc, of s'] h ne assms(5)
    by (simp add: tk nth pesos_dv1_def)
next
  fix s' c
  assume h: "is_ascii_digit c \<and> c \<noteq> cnpj ! 13 \<and> filter py_isdigit s' = cnpj[13 := c]"
  let ?c' = "cnpj[13 := c]"
  have len: "length ?c' = 14" using assms(2) by simp
  have asc: "list_all is_ascii_digit ?c'"
    using assms(3) h set_update_subset_insert [of cnpj _ c]
    by (auto simp: list_all_iff)
  have d13: "is_ascii_digit (cnpj ! 13)"
    using assms(2,3) by (simp add: list_all_length)
  have ne: "digit_value c \<noteq> digit_value (cnpj ! 13)"
    using h d13 digit_value_inj by blast
  have tk: "take 13 ?c' = take 13 cnpj" by simp
  have nth: "?c' ! 13 = c" using assms(2) by simp
  show "\<not> validar_cnpj s'"
    using validar_cnpj_ascii_iff [OF _ len asc, of s'] h ne assms(6)
    by (simp add: tk nth pesos_dv2_def)
qed

theorem validar_cnpj_check_digits_witness:
  "validar_cnpj ''11.222.333/0001-81''
   \<and> \<not> validar_cnpj ''11.222.333/0001-91''
   \<and> \<not> validar_cnpj ''11.222.333/0001-82''"
proof -
  have h1: "filter py_isdigit ''11.222.333/0001-81'' = ''11222333000181''"
    by (simp add: py_isdigit_def)
  have h2: "length ''11222333000181'' = 14"
    by simp
  have h3: "list_all is_ascii_digit ''11222333000181''"
    by (simp add: is_ascii_digit_def py_int_char_def)
  have h4: "\<not> all_identical ''11222333000181''"
    by (simp add: all_identical_def)
  have h5: "digit_value (''11222333000181'' ! 12) =
      mod11_check_digit [5, 4, 3, 2, 9, 8, 7, 6, 5, 4, 3, 2]
        (map digit_value (take 12 ''11222333000181''))"
    by (simp add: digit_value_def mod11_check_digit_def)
  have h6: "digit_value (''11222333000181'' ! 13) =
      mod11_check_digit [6, 5, 4, 3, 2, 9, 8, 7, 6, 5, 4, 3, 2]
        (map digit_value (take 13 ''11222333000181''))"
    by (simp add: digit_value_def mod11_check_digit_def)
  note t = validar_cnpj_check_digits [OF h1 h2 h3 h4 h5 h6]
  have a: "validar_cnpj ''11.222.333/0001-81''"
    using t by blast
  have p12: "is_ascii_digit CHR ''9'' \<and> CHR ''9'' \<noteq> ''11222333000181'' ! 12
      \<and> filter py_isdigit ''11.222.333/0001-91'' = ''11222333000181''[12 := CHR ''9'']"
    by (simp add: is_ascii_digit_def py_int_char_def py_isdigit_def)
  have p13: "is_ascii_digit CHR ''2'' \<and> CHR ''2'' \<noteq> ''11222333000181'' ! 13
      \<and> filter py_isdigit ''11.222.333/0001-82'' = ''11222333000181''[13 := CHR ''2'']"
    by (simp add: is_ascii_digit_def py_int_char_def py_isdigit_def)
  have b: "\<not> validar_cnpj ''11.222.333/0001-91''"
    using t p12 by blast
  have c: "\<not> validar_cnpj ''11.222.333/0001-82''"
    using t p13 by blast
  from a b c show ?thesis by blast
qed

text \<open>
  Claim C9. When the digits that remain after stripping are all the same, both
  validators return false, whatever the check digits are: the test on the number of
  distinct characters comes before the checksum.
\<close>

theorem identical_digits_rejected:
  "all_identical (filter py_isdigit s) \<Longrightarrow> \<not> validar_cnpj s \<and> \<not> validar_cpf s"
proof -
  assume ai: "all_identical (filter py_isdigit s)"
  show ?thesis
  proof (cases "filter py_isdigit s = []")
    case True
    then show ?thesis by (simp add: validar_cnpj_def validar_cpf_def)
  next
    case False
    from remdups_one_iff [OF False] ai have "length (remdups (filter py_isdigit s)) = 1"
      by simp
    then show ?thesis by (simp add: validar_cnpj_def validar_cpf_def)
  qed
qed

theorem identical_digits_rejected_witness:
  "all_identical (filter py_isdigit ''00.000.000/0000-00'')
   \<and> \<not> validar_cnpj ''00.000.000/0000-00''
   \<and> digit_value CHR ''0'' = mod11_check_digit pesos_dv1 (map digit_value ''000000000000'')
   \<and> digit_value CHR ''0'' = mod11_check_digit pesos_dv2 (map digit_value ''0000000000000'')
   \<and> all_identical (filter py_isdigit ''111.111.111-11'')
   \<and> \<not> validar_cpf ''111.111.111-11''
   \<and> soma_cpf ''111111111'' 10 = Some 54 \<and> dv_cpf 54 = 1
   \<and> soma_cpf ''1111111111'' 11 = Some 65 \<and> dv_cpf 65 = 1"
proof -
  have h1: "all_identical (filter py_isdigit ''00.000.000/0000-00'')"
    by (simp add: py_isdigit_def all_identical_def)
  have h2: "all_identical (filter py_isdigit ''111.111.111-11'')"
    by (simp add: py_isdigit_def all_identical_def)
  have ar: "digit_value CHR ''0'' = mod11_check_digit pesos_dv1 (map digit_value ''000000000000'')"
    "digit_value CHR ''0'' = mod11_check_digit pesos_dv2 (map digit_value ''0000000000000'')"
    by (simp_all add: digit_value_def mod11_check_digit_def pesos_dv1_def pesos_dv2_def)
  have cp: "soma_cpf ''111111111'' 10 = Some 54" "dv_cpf 54 = 1"
    "soma_cpf ''1111111111'' 11 = Some 65" "dv_cpf 65 = 1"
    by (simp_all add: py_int_char_def dv_cpf_def)
  from identical_digits_rejected [OF h1] have a: "\<not> validar_cnpj ''00.000.000/0000-00''"
    by (rule conjunct1)
  from identical_digits_rejected [OF h2] have b: "\<not> validar_cpf ''111.111.111-11''"
    by (rule conjunct2)
  show ?thesis
    by (intro conjI h1 h2 a b ar cp)
qed

subsection \<open>Reconciliation of the item sum with the declared total\<close>

text \<open>A coefficient of at most 28 digits with an exponent in range passes the rounding of
  the context unchanged.\<close>

lemma ndigits_bound: "c < 10 ^ k \<Longrightarrow> 0 < k \<Longrightarrow> ndigits c \<le> k"
proof (induction k arbitrary: c)
  case 0
  then show ?case by simp
next
  case (Suc k)
  show ?case
  proof (cases "c < 10")
    case True
    then show ?thesis by (simp add: ndigits.simps)
  next
    case False
    then have k: "0 < k" using Suc.prems by (cases k) auto
    have "c div 10 < 10 ^ k" using Suc.prems by (simp add: less_mult_imp_div_less mult.commute)
    from Suc.IH [OF this k] False show ?thesis
      by (subst ndigits.simps) simp
  qed
qed

lemma dec_fix_exact:
  assumes "c < 10 ^ 28" and "Etiny \<le> e" and "e \<le> Etop"
  shows "dec_fix sg c e = Inr (Dec sg c e)"
proof (cases "c = 0")
  case True
  then show ?thesis using assms by (simp add: dec_fix_def Etop_def Etiny_def Emax_def Emin_def prec_def)
next
  case False
  have "ndigits c \<le> 28" using ndigits_bound [OF assms(1)] by simp
  then have a: "int (ndigits c) + e - prec \<le> e"
    by (simp add: prec_def)
  then have b: "\<not> int (ndigits c) + e - prec > Etop"
    using assms(3) by linarith
  have c: "\<not> e < max (int (ndigits c) + e - prec) Etiny"
    using a assms(2) by linarith
  show ?thesis
    unfolding dec_fix_def Let_def using False b c by simp
qed

lemma units_value:
  "e0 \<le> e \<Longrightarrow> of_int (units_at e0 sg c e) * 10 powi e0 = dec_value (Dec sg c e)"
proof -
  assume le: "e0 \<le> e"
  have "(10::rat) powi e = 10 powi (int (nat (e - e0)) + e0)"
    using le by simp
  also have "\<dots> = 10 ^ nat (e - e0) * 10 powi e0"
    by (simp only: power_int_add [of "10::rat", simplified] power_int_of_nat)
  finally show ?thesis
    by (simp add: units_at_def)
qed

text \<open>The order of finite decimals is the order of their values, and a difference that
  fits is computed exactly.\<close>

lemma dec_lt_value:
  "dec_lt (Dec s1 c1 e1) (Dec s2 c2 e2) \<longleftrightarrow> dec_value (Dec s1 c1 e1) < dec_value (Dec s2 c2 e2)"
proof -
  let ?e = "min e1 e2"
  have p: "(0::rat) < 10 powi ?e" by simp
  have 1: "dec_value (Dec s1 c1 e1) = of_int (units_at ?e s1 c1 e1) * 10 powi ?e"
    by (rule units_value [symmetric]) simp
  have 2: "dec_value (Dec s2 c2 e2) = of_int (units_at ?e s2 c2 e2) * 10 powi ?e"
    by (rule units_value [symmetric]) simp
  have "dec_lt (Dec s1 c1 e1) (Dec s2 c2 e2) \<longleftrightarrow> units_at ?e s1 c1 e1 < units_at ?e s2 c2 e2"
    by (simp add: Let_def)
  also have "\<dots> \<longleftrightarrow> (of_int (units_at ?e s1 c1 e1) :: rat) < of_int (units_at ?e s2 c2 e2)"
    by simp
  also have "\<dots> \<longleftrightarrow> (of_int (units_at ?e s1 c1 e1) :: rat) * 10 powi ?e
                       < of_int (units_at ?e s2 c2 e2) * 10 powi ?e"
    using p by (simp only: mult_less_cancel_right_pos)
  finally show ?thesis
    by (simp only: 1 2)
qed

lemma units_at_negate: "units_at e (\<not> sg) c e' = - units_at e sg c e'"
  by (simp add: units_at_def)

lemma dec_sub_exact:
  assumes "difference_fits (Dec s1 c1 e1) (Dec s2 c2 e2)"
  shows "\<exists>sg. dec_sub (Dec s1 c1 e1) (Dec s2 c2 e2)
           = Inr (Dec sg (nat \<bar>units_at (min e1 e2) s1 c1 e1 - units_at (min e1 e2) s2 c2 e2\<bar>)
               (min e1 e2))"
proof -
  let ?e = "min e1 e2"
  let ?r = "units_at ?e s1 c1 e1 - units_at ?e s2 c2 e2"
  from assms have rng: "Etiny \<le> ?e" "?e \<le> Etop" and small: "\<bar>?r\<bar> < 10 ^ 28"
    by (simp_all add: Let_def)
  have n: "nat \<bar>?r\<bar> < 10 ^ 28"
    using small by (simp add: nat_less_iff)
  show ?thesis
  proof (cases "c1 = 0 \<and> c2 = 0")
    case True
    then have "?r = 0" by (simp add: units_at_def)
    then show ?thesis
      using True dec_fix_exact [of 0 ?e, OF _ rng]
      by (simp add: dec_sub_def)
  next
    case False
    then show ?thesis
      using dec_fix_exact [OF n rng]
      by (auto simp add: dec_sub_def Let_def units_at_negate)
  qed
qed

lemma abs_difference_value:
  "dec_value (Dec False (nat \<bar>units_at (min e1 e2) s1 c1 e1 - units_at (min e1 e2) s2 c2 e2\<bar>)
      (min e1 e2))
   = \<bar>dec_value (Dec s1 c1 e1) - dec_value (Dec s2 c2 e2)\<bar>"
proof -
  let ?e = "min e1 e2"
  let ?r = "units_at ?e s1 c1 e1 - units_at ?e s2 c2 e2"
  have 1: "dec_value (Dec s1 c1 e1) = of_int (units_at ?e s1 c1 e1) * 10 powi ?e"
    by (rule units_value [symmetric]) simp
  have 2: "dec_value (Dec s2 c2 e2) = of_int (units_at ?e s2 c2 e2) * 10 powi ?e"
    by (rule units_value [symmetric]) simp
  have "\<bar>dec_value (Dec s1 c1 e1) - dec_value (Dec s2 c2 e2)\<bar> = \<bar>of_int ?r * 10 powi ?e\<bar>"
    by (simp only: 1 2 of_int_diff left_diff_distrib)
  also have "\<dots> = \<bar>of_int ?r\<bar> * 10 powi ?e"
    by (simp add: abs_mult)
  also have "\<dots> = of_nat (nat \<bar>?r\<bar>) * 10 powi ?e"
    by simp
  finally show ?thesis
    by simp
qed

lemma dec_negate_value: "dec_value (dec_negate d) = - dec_value d"
  by (cases d) simp_all

lemma dec_sub_value:
  assumes "difference_fits S T"
  shows "\<exists>D. dec_sub S T = Inr D \<and> dec_value D = dec_value S - dec_value T"
proof -
  from assms obtain s1 c1 e1 s2 c2 e2 where S: "S = Dec s1 c1 e1" and T: "T = Dec s2 c2 e2"
    by (cases S; cases T) auto
  let ?e = "min e1 e2"
  let ?r = "units_at ?e s1 c1 e1 - units_at ?e s2 c2 e2"
  from assms have rng: "Etiny \<le> ?e" "?e \<le> Etop" and small: "nat \<bar>?r\<bar> < 10 ^ 28"
    by (simp_all add: S T Let_def nat_less_iff)
  have 1: "dec_value S = of_int (units_at ?e s1 c1 e1) * 10 powi ?e"
    unfolding S by (rule units_value [symmetric]) simp
  have 2: "dec_value T = of_int (units_at ?e s2 c2 e2) * 10 powi ?e"
    unfolding T by (rule units_value [symmetric]) simp
  have d: "dec_value S - dec_value T = of_int ?r * 10 powi ?e"
    by (simp only: 1 2 of_int_diff left_diff_distrib)
  show ?thesis
  proof (cases "c1 = 0 \<and> c2 = 0")
    case True
    then have r0: "?r = 0" by (simp add: units_at_def)
    have "dec_sub S T = Inr (Dec (s1 \<and> \<not> s2) 0 ?e)"
      using True dec_fix_exact [of 0 ?e, OF _ rng] by (simp add: dec_sub_def S T)
    then show ?thesis
      using d r0 by simp
  next
    case False
    have "dec_sub S T = Inr (Dec (?r < 0) (nat \<bar>?r\<bar>) ?e)"
      using False dec_fix_exact [OF small rng]
      by (auto simp add: dec_sub_def S T Let_def units_at_negate)
    moreover have "dec_value (Dec (?r < 0) (nat \<bar>?r\<bar>) ?e) = of_int ?r * 10 powi ?e"
      by (cases "?r < 0") simp_all
    ultimately show ?thesis
      using d by simp
  qed
qed

lemma dec_negate_twice: "dec_negate (dec_negate d) = d"
  by (cases d) simp_all

text \<open>
  Claim C3 as stated: a difference strictly greater than 0.01 adds a reconciliation
  error. With no item the sum is 0.00; the declared total
  0.0100000000000000000000000000001 differs from it by more than 0.01, but the
  subtraction of the default context rounds the difference to 28 significant digits,
  that is to 0.01, which does not exceed the tolerance: no error is added.
\<close>

theorem reconciliation_counterexample:
  "to_decimal (Some ''0.0100000000000000000000000000001'')
     = Inr (Dec False 100000000000000000000000000001 (- 31))
   \<and> \<bar>dec_value (Dec False 0 (- 2))
        - dec_value (Dec False 100000000000000000000000000001 (- 31))\<bar> > 1 / 100
   \<and> auditar tabela_vazia
        (nota_exemplo\<lparr>itens := Val [],
           valor_total_nota := Val ''0.0100000000000000000000000000001''\<rparr>)
      = Inr (Audited \<lparr>status_auditoria = StatusWarning, erros_auditoria = [],
          avisos_auditoria = [SemItens], info_ncm = []\<rparr>)"
proof (intro conjI)
  show "to_decimal (Some ''0.0100000000000000000000000000001'')
     = Inr (Dec False 100000000000000000000000000001 (- 31))"
    by (simp add: text_eval parse_eval)
  show "\<bar>dec_value (Dec False 0 (- 2))
        - dec_value (Dec False 100000000000000000000000000001 (- 31))\<bar> > 1 / 100"
    by simp
  show "auditar tabela_vazia
        (nota_exemplo\<lparr>itens := Val [],
           valor_total_nota := Val ''0.0100000000000000000000000000001''\<rparr>)
      = Inr (Audited \<lparr>status_auditoria = StatusWarning, erros_auditoria = [],
          avisos_auditoria = [SemItens], info_ncm = []\<rparr>)"
    by (simp add: example_eval engine_eval text_eval parse_eval decimal_eval validator_eval)
qed

text \<open>The comparison alone, on an arbitrary state: when the sum of the state and the
  normalised declared total are finite decimals whose difference fits the 28 digits of the
  context, the error is added exactly when the absolute difference of the values exceeds
  0.01.\<close>

lemma reconciliation_tolerance:
  assumes "calculated_sum st = S"
    and "to_decimal (get_default (valor_total_nota dados) ''0'') = Inr T"
    and "difference_fits S T"
  shows "reconcile dados st =
           Inr (if \<bar>dec_value S - dec_value T\<bar> > 1 / 100
                then st\<lparr>issues := issues st @ [SomaDifere (format_2f S) (format_2f T)]\<rparr>
                else st)"
proof -
  from assms(3) obtain s1 c1 e1 s2 c2 e2 where S: "S = Dec s1 c1 e1" and T: "T = Dec s2 c2 e2"
    by (cases S; cases T) auto
  let ?c = "nat \<bar>units_at (min e1 e2) s1 c1 e1 - units_at (min e1 e2) s2 c2 e2\<bar>"
  let ?e = "min e1 e2"
  from assms(3) have rng: "Etiny \<le> ?e" "?e \<le> Etop" and small: "?c < 10 ^ 28"
    by (simp_all add: S T Let_def nat_less_iff)
  from dec_sub_exact [OF assms(3) [unfolded S T]]
  obtain sg where sub: "dec_sub S T = Inr (Dec sg ?c ?e)"
    unfolding S T by blast
  have ab: "dec_abs (Dec sg ?c ?e) = Inr (Dec False ?c ?e)"
    using dec_fix_exact [OF small rng] by simp
  have gt: "dec_gt (Dec False ?c ?e) (Dec False 1 (- 2))
              = Inr (\<bar>dec_value S - dec_value T\<bar> > 1 / 100)"
    unfolding dec_gt_def
    by (simp only: is_nan.simps dec_lt_value abs_difference_value S T) simp
  show ?thesis
    by (simp only: reconcile_def bind_exn_def assms(1,2) sum.case sub ab gt)
qed

text \<open>On the example record the item loop ends with the sum 100.00; the declared total
  100.01 adds no error and 100.02 adds the error with the texts 100.00 and 100.02.\<close>

lemma reconciliation_single_item:
  "audit_items tabela_exemplo 1 [item_exemplo] (initial_state nota_exemplo [item_exemplo])
     = Inr estado_exemplo
   \<and> reconcile (nota_exemplo\<lparr>valor_total_nota := Val ''100.01''\<rparr>) estado_exemplo
       = Inr estado_exemplo
   \<and> reconcile (nota_exemplo\<lparr>valor_total_nota := Val ''100.02''\<rparr>) estado_exemplo
       = Inr (estado_exemplo\<lparr>issues := [SomaDifere ''100.00'' ''100.02'']\<rparr>)"
proof -
  have loop: "audit_items tabela_exemplo 1 [item_exemplo] (initial_state nota_exemplo [item_exemplo])
     = Inr estado_exemplo"
    by (simp add: estado_exemplo_def example_eval engine_eval text_eval parse_eval decimal_eval
          validator_eval)
  have s: "calculated_sum estado_exemplo = Dec False 10000 (- 2)"
    by (simp add: estado_exemplo_def)
  have t1: "to_decimal (get_default (valor_total_nota
      (nota_exemplo\<lparr>valor_total_nota := Val ''100.01''\<rparr>)) ''0'') = Inr (Dec False 10001 (- 2))"
    by (simp add: text_eval parse_eval)
  have t2: "to_decimal (get_default (valor_total_nota
      (nota_exemplo\<lparr>valor_total_nota := Val ''100.02''\<rparr>)) ''0'') = Inr (Dec False 10002 (- 2))"
    by (simp add: text_eval parse_eval)
  have f1: "difference_fits (Dec False 10000 (- 2)) (Dec False 10001 (- 2))"
    by (simp add: units_at_def Etiny_def Etop_def Emin_def Emax_def prec_def)
  have f2: "difference_fits (Dec False 10000 (- 2)) (Dec False 10002 (- 2))"
    by (simp add: units_at_def Etiny_def Etop_def Emin_def Emax_def prec_def)
  have r1: "reconcile (nota_exemplo\<lparr>valor_total_nota := Val ''100.01''\<rparr>) estado_exemplo
       = Inr estado_exemplo"
    using reconciliation_tolerance [OF s t1 f1] by simp
  have r2: "reconcile (nota_exemplo\<lparr>valor_total_nota := Val ''100.02''\<rparr>) estado_exemplo
       = Inr (estado_exemplo\<lparr>issues := [SomaDifere ''100.00'' ''100.02'']\<rparr>)"
    using reconciliation_tolerance [OF s t2 f2]
    by (simp add: estado_exemplo_def rescale2_def str_nat.simps digit_char_def)
  from loop r1 r2 show ?thesis
    by (intro conjI)
qed

text \<open>The whole audit on the two declared totals of the examples: 100.01 passes, 100.02
  is reported.\<close>

lemma reconciliation_examples:
  "auditar tabela_exemplo (nota_exemplo\<lparr>valor_total_nota := Val ''100.01''\<rparr>)
     = Inr (Audited (make_result [] [] (ncm_info estado_exemplo)))
   \<and> auditar tabela_exemplo (nota_exemplo\<lparr>valor_total_nota := Val ''100.02''\<rparr>)
     = Inr (Audited (make_result [SomaDifere ''100.00'' ''100.02''] []
         (ncm_info estado_exemplo)))"
  by (simp add: estado_exemplo_def example_eval engine_eval text_eval parse_eval decimal_eval
        validator_eval)

subsection \<open>The sum accumulated by the item loop\<close>

text \<open>Amounts with at most k decimal places are counted in units of the k-th decimal
  place: aligning two of them to a common exponent keeps the count.\<close>

lemma units_scale:
  assumes "- int k \<le> e0" and "e0 \<le> e"
  shows "\<bar>units_at e0 sg c e\<bar> * 10 ^ nat (e0 + int k) = int c * 10 ^ nat (e + int k)"
proof -
  have n: "nat (e - e0) + nat (e0 + int k) = nat (e + int k)"
    using assms by linarith
  have "\<bar>units_at e0 sg c e\<bar> = int c * 10 ^ nat (e - e0)"
    by (simp add: units_at_def abs_mult)
  then have "\<bar>units_at e0 sg c e\<bar> * 10 ^ nat (e0 + int k)
               = int c * (10 ^ nat (e - e0) * 10 ^ nat (e0 + int k))"
    by (simp only: mult.assoc)
  also have "\<dots> = int c * 10 ^ nat (e + int k)"
    by (simp only: power_add [symmetric] n)
  finally show ?thesis .
qed

lemma units_le:
  assumes "- int k \<le> e0" and "e0 \<le> e"
  shows "\<bar>units_at e0 sg c e\<bar> \<le> int c * 10 ^ nat (e + int k)"
proof -
  have "(1::int) \<le> 10 ^ nat (e0 + int k)" by simp
  then have "\<bar>units_at e0 sg c e\<bar> * 1 \<le> \<bar>units_at e0 sg c e\<bar> * 10 ^ nat (e0 + int k)"
    by (intro mult_left_mono) simp_all
  then show ?thesis
    by (simp only: units_scale [OF assms] mult_1_right)
qed

lemma Etiny_value: "Etiny = - 1000026" and Etop_value: "Etop = 999972"
  by (simp_all add: Etiny_def Etop_def Emin_def Emax_def prec_def)

lemma sum_within_mono: "sum_within k B S \<Longrightarrow> B \<le> B' \<Longrightarrow> sum_within k B' S"
  by (cases S) auto

text \<open>Adding a bounded amount to a bounded sum is exact under the context, and the
  bounds add up.\<close>

lemma add_within:
  assumes S: "sum_within k B1 S" and v: "amount_within k B2 v"
    and k: "int k \<le> 1000026" and b: "B1 + B2 < 10 ^ 28"
  shows "\<exists>S'. dec_add S v = Inr S' \<and> sum_within k (B1 + B2) S'
           \<and> dec_value S' = dec_value S + dec_value v"
proof -
  from S obtain s1 c1 e1 where Sd: "S = Dec s1 c1 e1" by (cases S) auto
  from v obtain s2 c2 e2 where vd: "v = Dec s2 c2 e2" by (cases v) auto
  let ?e = "min e1 e2"
  let ?u1 = "units_at ?e s1 c1 e1"
  let ?u2 = "units_at ?e (\<not> s2) c2 e2"
  let ?r = "?u1 - ?u2"
  from S have s1: "- int k \<le> e1" "e1 \<le> 0" "int c1 * 10 ^ nat (e1 + int k) \<le> int B1"
    by (simp_all add: Sd)
  from v have s2: "- int k \<le> e2" "int c2 * 10 ^ nat (e2 + int k) \<le> int B2"
    by (simp_all add: vd)
  have ke: "- int k \<le> ?e" using s1(1) s2(1) by simp
  have le1: "?e \<le> e1" and le2: "?e \<le> e2" by simp_all
  have rs: "\<bar>?r\<bar> * 10 ^ nat (?e + int k) \<le> int B1 + int B2"
  proof -
    have "\<bar>?r\<bar> \<le> \<bar>?u1\<bar> + \<bar>?u2\<bar>" by (rule abs_triangle_ineq4)
    then have "\<bar>?r\<bar> * 10 ^ nat (?e + int k) \<le> (\<bar>?u1\<bar> + \<bar>?u2\<bar>) * 10 ^ nat (?e + int k)"
      by (intro mult_right_mono) simp_all
    also have "\<dots> = int c1 * 10 ^ nat (e1 + int k) + int c2 * 10 ^ nat (e2 + int k)"
      by (simp only: distrib_right units_scale [OF ke le1] units_scale [OF ke le2])
    also have "\<dots> \<le> int B1 + int B2"
      using s1(3) s2(2) by linarith
    finally show ?thesis .
  qed
  have "\<bar>?r\<bar> * 1 \<le> \<bar>?r\<bar> * 10 ^ nat (?e + int k)"
    by (intro mult_left_mono) simp_all
  with rs have rb: "\<bar>?r\<bar> \<le> int B1 + int B2" by simp
  have "int B1 + int B2 < 10 ^ 28"
    using b by (metis of_nat_add of_nat_less_iff of_nat_numeral of_nat_power)
  with rb have small: "\<bar>?r\<bar> < 10 ^ 28" by linarith
  have fits: "difference_fits (Dec s1 c1 e1) (Dec (\<not> s2) c2 e2)"
    using ke k s1(2) small by (simp add: Let_def Etiny_value Etop_value)
  have sub: "dec_sub (Dec s1 c1 e1) (Dec (\<not> s2) c2 e2) = dec_add S v"
    by (simp add: dec_sub_def Sd vd)
  from dec_sub_exact [OF fits] obtain sg
    where shape: "dec_add S v = Inr (Dec sg (nat \<bar>?r\<bar>) ?e)"
    unfolding sub by blast
  from dec_sub_value [OF fits] obtain D
    where D: "dec_add S v = Inr D" and val: "dec_value D = dec_value S + dec_value v"
    unfolding sub by (auto simp: Sd vd)
  from shape D have Dd: "D = Dec sg (nat \<bar>?r\<bar>) ?e" by simp
  have "sum_within k (B1 + B2) D"
    using ke s1(2) rs by (simp add: Dd)
  with D val show ?thesis by blast
qed

text \<open>One pass of the item loop adds the parsed line total of the item to the sum, or
  nothing when the text of the line total is no number; the classification and operation
  code steps leave the sum alone.\<close>

lemma sum_step_within:
  assumes S: "sum_within k B1 (calculated_sum st)"
    and v: "\<forall>v. line_total it = Inr v \<longrightarrow> amount_within k B v"
    and k: "int k \<le> 1000026" and b: "B1 + B < 10 ^ 28"
    and step: "sum_step p it st = Inr st'"
  shows "sum_within k (B1 + B) (calculated_sum st')
     \<and> dec_value (calculated_sum st') = dec_value (calculated_sum st) + parsed_value it"
proof (cases "line_total it")
  case (Inl ex)
  then have "calculated_sum st' = calculated_sum st"
    using step by (auto simp: sum_step_def line_total_def bind_exn_def try_except_def
        split: if_splits)
  then show ?thesis
    using S Inl sum_within_mono [of k B1 _ "B1 + B"] by (simp add: parsed_value_def)
next
  case (Inr v')
  with v have "amount_within k B v'" by blast
  from add_within [OF S this k b] obtain S'
    where a: "dec_add (calculated_sum st) v' = Inr S'" and w: "sum_within k (B1 + B) S'"
      and val: "dec_value S' = dec_value (calculated_sum st) + dec_value v'"
    by blast
  have "sum_step p it st = Inr (st\<lparr>calculated_sum := S'\<rparr>)"
    using Inr a by (simp add: sum_step_def line_total_def bind_exn_def try_except_def)
  with step have "st' = st\<lparr>calculated_sum := S'\<rparr>" by simp
  then show ?thesis
    using w val Inr by (simp add: parsed_value_def)
qed

lemma ncm_step_sum:
  "ncm_step consultar_ncm p it st = Inr st1 \<Longrightarrow> calculated_sum st1 = calculated_sum st"
  by (auto simp: ncm_step_def bind_exn_def split: jopt.splits option.splits sum.splits if_splits)

lemma cfop_step_sum: "calculated_sum (cfop_step p it st) = calculated_sum st"
  by (simp add: cfop_step_def)

lemma audit_item_within:
  assumes S: "sum_within k B1 (calculated_sum st)"
    and v: "\<forall>v. line_total it = Inr v \<longrightarrow> amount_within k B v"
    and k: "int k \<le> 1000026" and b: "B1 + B < 10 ^ 28"
    and step: "audit_item consultar_ncm i it st = Inr st'"
  shows "sum_within k (B1 + B) (calculated_sum st')
     \<and> dec_value (calculated_sum st') = dec_value (calculated_sum st) + parsed_value it"
proof -
  let ?p = "(i, get_default (codigo it) ''S/C'')"
  from step obtain st1 where 1: "ncm_step consultar_ncm ?p it st = Inr st1"
    and 2: "sum_step ?p it (cfop_step ?p it st1) = Inr st'"
    by (auto simp: audit_item_def bind_exn_def Let_def split: sum.splits)
  have eq: "calculated_sum (cfop_step ?p it st1) = calculated_sum st"
    by (simp add: cfop_step_sum ncm_step_sum [OF 1])
  from S have "sum_within k B1 (calculated_sum (cfop_step ?p it st1))"
    by (simp only: eq)
  from sum_step_within [OF this v k b 2] show ?thesis
    by (simp only: eq)
qed

text \<open>The loop invariant: after the loop the sum of the state has grown by exactly the
  sum of the parsed line totals.\<close>

lemma audit_items_within:
  assumes k: "int k \<le> 1000026"
  shows "audit_items consultar_ncm i items st = Inr st' \<Longrightarrow>
     sum_within k B1 (calculated_sum st) \<Longrightarrow>
     \<forall>it \<in> set items. \<forall>v. line_total it = Inr v \<longrightarrow> amount_within k B v \<Longrightarrow>
     B1 + length items * B < 10 ^ 28 \<Longrightarrow>
     sum_within k (B1 + length items * B) (calculated_sum st')
     \<and> dec_value (calculated_sum st')
         = dec_value (calculated_sum st) + sum_of_line_totals items"
proof (induction items arbitrary: i st B1)
  case Nil
  then show ?case by (simp add: sum_of_line_totals_def)
next
  case (Cons it items)
  from Cons.prems(1) obtain st1 where 1: "audit_item consultar_ncm i it st = Inr st1"
    and 2: "audit_items consultar_ncm (Suc i) items st1 = Inr st'"
    by (auto simp: bind_exn_def split: sum.splits)
  have v: "\<forall>v. line_total it = Inr v \<longrightarrow> amount_within k B v"
    using Cons.prems(3) by simp
  have vs: "\<forall>it \<in> set items. \<forall>v. line_total it = Inr v \<longrightarrow> amount_within k B v"
    using Cons.prems(3) by simp
  have b1: "B1 + B < 10 ^ 28" and b2: "(B1 + B) + length items * B < 10 ^ 28"
    using Cons.prems(4) by simp_all
  from audit_item_within [OF Cons.prems(2) v k b1 1]
  have w1: "sum_within k (B1 + B) (calculated_sum st1)"
    and val1: "dec_value (calculated_sum st1) = dec_value (calculated_sum st) + parsed_value it"
    by simp_all
  from Cons.IH [OF 2 w1 vs b2]
  have w: "sum_within k ((B1 + B) + length items * B) (calculated_sum st')"
    and val: "dec_value (calculated_sum st')
                = dec_value (calculated_sum st1) + sum_of_line_totals items"
    by simp_all
  have "(B1 + B) + length items * B = B1 + length (it # items) * B" by simp
  with w have "sum_within k (B1 + length (it # items) * B) (calculated_sum st')"
    by (simp only:)
  moreover have "dec_value (calculated_sum st')
      = dec_value (calculated_sum st) + sum_of_line_totals (it # items)"
    using val val1 by (simp add: sum_of_line_totals_def)
  ultimately show ?case by blast
qed

lemma fits_within:
  assumes S: "sum_within k B1 S" and T: "amount_within k B2 T"
    and k: "int k \<le> 1000026" and b: "B1 + B2 < 10 ^ 28"
  shows "difference_fits S T"
proof -
  from S obtain s1 c1 e1 where Sd: "S = Dec s1 c1 e1" by (cases S) auto
  from T obtain s2 c2 e2 where Td: "T = Dec s2 c2 e2" by (cases T) auto
  let ?e = "min e1 e2"
  let ?u1 = "units_at ?e s1 c1 e1"
  let ?u2 = "units_at ?e s2 c2 e2"
  from S have s1: "- int k \<le> e1" "e1 \<le> 0" "int c1 * 10 ^ nat (e1 + int k) \<le> int B1"
    by (simp_all add: Sd)
  from T have s2: "- int k \<le> e2" "int c2 * 10 ^ nat (e2 + int k) \<le> int B2"
    by (simp_all add: Td)
  have ke: "- int k \<le> ?e" using s1(1) s2(1) by simp
  have le1: "?e \<le> e1" and le2: "?e \<le> e2" by simp_all
  have "\<bar>?u1 - ?u2\<bar> \<le> \<bar>?u1\<bar> + \<bar>?u2\<bar>" by (rule abs_triangle_ineq4)
  also have "\<dots> \<le> int c1 * 10 ^ nat (e1 + int k) + int c2 * 10 ^ nat (e2 + int k)"
    using units_le [OF ke le1, of s1 c1] units_le [OF ke le2, of s2 c2] by linarith
  also have "\<dots> \<le> int B1 + int B2"
    using s1(3) s2(2) by linarith
  also have "\<dots> < 10 ^ 28"
    using b by (metis of_nat_add of_nat_less_iff of_nat_numeral of_nat_power)
  finally have "\<bar>?u1 - ?u2\<bar> < 10 ^ 28" .
  then show ?thesis
    using ke k s1(2) by (simp add: Sd Td Let_def Etiny_value Etop_value)
qed

text \<open>The item loop runs to its end whenever the tax block of every item can be read:
  every other failure inside the loop is an \<^verbatim>\<open>InvalidOperation\<close>, which the
  loop catches.\<close>

lemma to_decimal_exn: "to_decimal x = Inl ex \<Longrightarrow> ex = InvalidOperation"
  by (auto simp: to_decimal_def decimal_of_str_def split: option.splits if_splits)

lemma dec_ne_exn: "dec_ne a b = Inl ex \<Longrightarrow> ex = InvalidOperation"
  by (auto simp: dec_ne_def split: if_splits)

lemma check_ipi_total:
  assumes "get_pIPI imp = Inr p"
  shows "\<exists>ws. check_ipi item_prefix imp resultado_ncm = Inr ws"
proof (cases p)
  case None
  then show ?thesis
    using assms by (simp add: check_ipi_def bind_exn_def try_except_def)
next
  case (Some s)
  show ?thesis
  proof (cases "to_decimal (Some s)")
    case (Inl ex)
    with to_decimal_exn [OF Inl] show ?thesis
      using assms Some by (simp add: check_ipi_def bind_exn_def try_except_def)
  next
    case d: (Inr pIPI_doc)
    show ?thesis
    proof (cases "to_decimal (Some (aliquota resultado_ncm))")
      case (Inl ex)
      with to_decimal_exn [OF Inl] show ?thesis
        using assms Some d by (simp add: check_ipi_def bind_exn_def try_except_def)
    next
      case t: (Inr pIPI_tipi)
      show ?thesis
      proof (cases "dec_ne pIPI_doc pIPI_tipi")
        case (Inl ex)
        with dec_ne_exn [OF Inl] show ?thesis
          using assms Some d t by (simp add: check_ipi_def bind_exn_def try_except_def)
      next
        case (Inr differs)
        then show ?thesis
          using assms Some d t by (simp add: check_ipi_def bind_exn_def try_except_def)
      qed
    qed
  qed
qed

lemma ncm_step_total:
  assumes "get_pIPI (imposto it) = Inr p"
  shows "\<exists>st1. ncm_step consultar_ncm item_prefix it st = Inr st1"
proof -
  have c: "\<And>r. \<exists>ws. check_ipi item_prefix (imposto it) r = Inr ws"
    using check_ipi_total [OF assms] by blast
  show ?thesis
  proof (cases "ncm it")
    case (Val code)
    show ?thesis
    proof (cases "code = []")
      case True
      then show ?thesis using Val by (simp add: ncm_step_def)
    next
      case False
      show ?thesis
      proof (cases "consultar_ncm code")
        case None
        then show ?thesis using Val False by (simp add: ncm_step_def)
      next
        case (Some r)
        from c [of r] obtain ws where "check_ipi item_prefix (imposto it) r = Inr ws" by blast
        then show ?thesis using Val False Some by (simp add: ncm_step_def bind_exn_def)
      qed
    qed
  qed (simp_all add: ncm_step_def)
qed

lemma sum_step_total:
  assumes S: "sum_within k B1 (calculated_sum st)"
    and v: "\<forall>v. line_total it = Inr v \<longrightarrow> amount_within k B v"
    and k: "int k \<le> 1000026" and b: "B1 + B < 10 ^ 28"
  shows "\<exists>st'. sum_step p it st = Inr st'"
proof (cases "line_total it")
  case (Inl ex)
  then have "ex = InvalidOperation"
    unfolding line_total_def by (rule to_decimal_exn)
  with Inl show ?thesis
    by (simp add: sum_step_def line_total_def bind_exn_def try_except_def)
next
  case (Inr v')
  with v have "amount_within k B v'" by blast
  from add_within [OF S this k b] obtain S'
    where "dec_add (calculated_sum st) v' = Inr S'" by blast
  with Inr show ?thesis
    by (simp add: sum_step_def line_total_def bind_exn_def try_except_def)
qed

lemma audit_items_completes:
  assumes k: "int k \<le> 1000026"
  shows "sum_within k B1 (calculated_sum st) \<Longrightarrow>
     \<forall>it \<in> set items. \<exists>p. get_pIPI (imposto it) = Inr p \<Longrightarrow>
     \<forall>it \<in> set items. \<forall>v. line_total it = Inr v \<longrightarrow> amount_within k B v \<Longrightarrow>
     B1 + length items * B < 10 ^ 28 \<Longrightarrow>
     \<exists>st'. audit_items consultar_ncm i items st = Inr st'"
proof (induction items arbitrary: i st B1)
  case Nil
  then show ?case by simp
next
  case (Cons it items)
  let ?p = "(i, get_default (codigo it) ''S/C'')"
  from Cons.prems(2) obtain p where "get_pIPI (imposto it) = Inr p" by auto
  from ncm_step_total [OF this] obtain st1
    where 1: "ncm_step consultar_ncm ?p it st = Inr st1" by blast
  have v: "\<forall>v. line_total it = Inr v \<longrightarrow> amount_within k B v"
    using Cons.prems(3) by simp
  have b1: "B1 + B < 10 ^ 28" and b2: "(B1 + B) + length items * B < 10 ^ 28"
    using Cons.prems(4) by simp_all
  have "sum_within k B1 (calculated_sum (cfop_step ?p it st1))"
    using Cons.prems(1) by (simp add: cfop_step_sum ncm_step_sum [OF 1])
  from sum_step_total [OF this v k b1] obtain st2
    where 2: "sum_step ?p it (cfop_step ?p it st1) = Inr st2" by blast
  have item: "audit_item consultar_ncm i it st = Inr st2"
    by (simp add: audit_item_def Let_def bind_exn_def 1 2)
  from audit_item_within [OF Cons.prems(1) v k b1 item]
  have w: "sum_within k (B1 + B) (calculated_sum st2)" by simp
  have "\<exists>st'. audit_items consultar_ncm (Suc i) items st2 = Inr st'"
    using Cons.prems(2,3) by (intro Cons.IH [OF w _ _ b2]) simp_all
  then show ?case
    by (simp add: bind_exn_def item)
qed

text \<open>
  Claim C3, amended. In the structured path, let the item loop run to its end over the
  items of the record, and let every parsed line total and the normalised declared total
  be finite decimals with at most k decimal places (k at least 2), of magnitude at most B
  units of the k-th decimal place, where B times one more than the number of items stays
  below ten to the power 28, the precision of the decimal context. Then the sum held by
  the final state is the exact sum of the parsed line totals
  (a line total that is no number counts for nothing), and the structured audit ends in
  that state unchanged if the absolute difference between this sum and the declared total
  is at most 0.01, and with one more error, carrying both values formatted to two decimal
  places, if the difference is strictly greater than 0.01.
\<close>

theorem structured_reconciliation:
  assumes items: "get_default (itens dados) [] = Some items"
    and loop: "audit_items consultar_ncm 1 items (initial_state dados items) = Inr st"
    and amounts: "\<forall>it \<in> set items. \<forall>v. line_total it = Inr v \<longrightarrow> amount_within k B v"
    and total: "to_decimal (get_default (valor_total_nota dados) ''0'') = Inr T"
    and total_amount: "amount_within k B T"
    and k: "2 \<le> k" "int k \<le> 1000026"
    and bound: "(length items + 1) * B < 10 ^ 28"
  shows "dec_value (calculated_sum st) = sum_of_line_totals items
     \<and> audit_structured consultar_ncm dados =
         Inr (if \<bar>sum_of_line_totals items - dec_value T\<bar> > 1 / 100
              then st\<lparr>issues := issues st @
                     [SomaDifere (format_2f (calculated_sum st)) (format_2f T)]\<rparr>
              else st)"
proof -
  have init: "sum_within k 0 (calculated_sum (initial_state dados items))"
    using k(1) by (simp add: initial_state_def)
  have b0: "0 + length items * B < 10 ^ 28"
    using bound by simp
  from audit_items_within [OF k(2) loop init amounts b0]
  have w: "sum_within k (length items * B) (calculated_sum st)"
    and val: "dec_value (calculated_sum st) = sum_of_line_totals items"
    by (simp_all add: initial_state_def)
  have b1: "length items * B + B < 10 ^ 28"
    using bound by simp
  have fits: "difference_fits (calculated_sum st) T"
    by (rule fits_within [OF w total_amount k(2) b1])
  have "audit_structured consultar_ncm dados = reconcile dados st"
    by (simp only: audit_structured_def items option.case loop bind_exn_def sum.case)
  with reconciliation_tolerance [OF refl total fits] val show ?thesis
    by simp
qed

text \<open>Two items of 50.00 each sum to 100.00: the declared total 100.01 adds no error,
  100.02 adds the error with the texts 100.00 and 100.02.\<close>

theorem structured_reconciliation_witness:
  "sum_of_line_totals itens_dois = 100
   \<and> audit_structured tabela_exemplo (nota_dois_itens\<lparr>valor_total_nota := Val ''100.01''\<rparr>)
       = Inr estado_dois_itens
   \<and> audit_structured tabela_exemplo (nota_dois_itens\<lparr>valor_total_nota := Val ''100.02''\<rparr>)
       = Inr (estado_dois_itens\<lparr>issues := [SomaDifere ''100.00'' ''100.02'']\<rparr>)"
proof -
  let ?d1 = "nota_dois_itens\<lparr>valor_total_nota := Val ''100.01''\<rparr>"
  let ?d2 = "nota_dois_itens\<lparr>valor_total_nota := Val ''100.02''\<rparr>"
  have i1: "get_default (itens ?d1) [] = Some itens_dois"
    and i2: "get_default (itens ?d2) [] = Some itens_dois"
    by (simp_all add: nota_dois_itens_def)
  have l1: "audit_items tabela_exemplo 1 itens_dois (initial_state ?d1 itens_dois)
              = Inr estado_dois_itens"
    by (simp add: estado_dois_itens_def itens_dois_def nota_dois_itens_def example_eval
          engine_eval text_eval parse_eval decimal_eval validator_eval)
  have l2: "audit_items tabela_exemplo 1 itens_dois (initial_state ?d2 itens_dois)
              = Inr estado_dois_itens"
    by (simp add: estado_dois_itens_def itens_dois_def nota_dois_itens_def example_eval
          engine_eval text_eval parse_eval decimal_eval validator_eval)
  have lt: "\<forall>it \<in> set itens_dois. line_total it = Inr (Dec False 5000 (- 2))"
    by (simp add: itens_dois_def item_exemplo_def line_total_def text_eval parse_eval)
  have am: "\<forall>it \<in> set itens_dois. \<forall>v. line_total it = Inr v \<longrightarrow> amount_within 2 1000000 v"
    using lt by auto
  have t1: "to_decimal (get_default (valor_total_nota ?d1) ''0'') = Inr (Dec False 10001 (- 2))"
    and t2: "to_decimal (get_default (valor_total_nota ?d2) ''0'') = Inr (Dec False 10002 (- 2))"
    by (simp_all add: text_eval parse_eval)
  have a1: "amount_within 2 1000000 (Dec False 10001 (- 2))"
    and a2: "amount_within 2 1000000 (Dec False 10002 (- 2))"
    by simp_all
  have k: "(2::nat) \<le> 2" "int 2 \<le> 1000026"
    by simp_all
  have b: "(length itens_dois + 1) * 1000000 < (10::nat) ^ 28"
    by (simp add: itens_dois_def)
  note r1 = structured_reconciliation [OF i1 l1 am t1 a1 k b]
  note r2 = structured_reconciliation [OF i2 l2 am t2 a2 k b]
  have cs: "calculated_sum estado_dois_itens = Dec False 10000 (- 2)"
    by (simp add: estado_dois_itens_def)
  have s: "sum_of_line_totals itens_dois = 100"
    using r1 by (simp add: cs)
  have e1: "audit_structured tabela_exemplo ?d1 = Inr estado_dois_itens"
    using r1 by (simp add: s)
  have e2: "audit_structured tabela_exemplo ?d2
       = Inr (estado_dois_itens\<lparr>issues := [SomaDifere ''100.00'' ''100.02'']\<rparr>)"
    using r2 by (simp add: s cs estado_dois_itens_def rescale2_def str_nat.simps digit_char_def)
  from s e1 e2 show ?thesis by (intro conjI)
qed

subsection \<open>Monetary normalisation\<close>

text \<open>Stripping keeps every character that is not whitespace, leaves no whitespace at
  either end, and is idempotent.\<close>

lemma mem_dropWhile: "\<not> P c \<Longrightarrow> c \<in> set xs \<Longrightarrow> c \<in> set (dropWhile P xs)"
  by (induction xs) auto

lemma py_strip_mem: "\<not> py_isspace c \<Longrightarrow> c \<in> set (py_strip s) \<longleftrightarrow> c \<in> set s"
proof
  assume "c \<in> set (py_strip s)"
  then have "c \<in> set (dropWhile py_isspace (rev (dropWhile py_isspace s)))"
    by (simp add: py_strip_def)
  then have "c \<in> set (rev (dropWhile py_isspace s))"
    by (rule set_mp [OF set_dropWhileD [THEN subsetI], rotated]) 
  then show "c \<in> set s"
    using set_dropWhileD by fastforce
next
  assume ns: "\<not> py_isspace c" and "c \<in> set s"
  then have "c \<in> set (rev (dropWhile py_isspace s))"
    by (simp add: mem_dropWhile)
  with ns have "c \<in> set (dropWhile py_isspace (rev (dropWhile py_isspace s)))"
    by (rule mem_dropWhile)
  then show "c \<in> set (py_strip s)"
    by (simp add: py_strip_def)
qed

lemma not_space_comma_point: "\<not> py_isspace CHR '',''" "\<not> py_isspace CHR ''.''"
  by (simp_all add: py_isspace_def)

lemma py_strip_no_space_ends:
  "py_strip s \<noteq> [] \<Longrightarrow> \<not> py_isspace (hd (py_strip s)) \<and> \<not> py_isspace (last (py_strip s))"
proof -
  assume ne: "py_strip s \<noteq> []"
  let ?u = "dropWhile py_isspace s"
  let ?v = "dropWhile py_isspace (rev ?u)"
  have v: "?v \<noteq> []" using ne by (simp add: py_strip_def)
  then have hv: "\<not> py_isspace (hd ?v)" by (rule hd_dropWhile)
  have u: "?u \<noteq> []"
  proof
    assume "?u = []"
    then have "rev ?u = []" by (simp only: rev.simps)
    then have "?v = []" by (simp only: dropWhile.simps)
    with v show False by simp
  qed
  then have hu: "\<not> py_isspace (hd ?u)" by (rule hd_dropWhile)
  have "last ?v = last (rev ?u)"
    using v by (metis last_appendR takeWhile_dropWhile_id)
  then have lv: "last ?v = hd ?u" using u by (simp add: last_rev)
  have "hd (py_strip s) = last ?v" using v by (simp add: py_strip_def hd_rev)
  moreover have "last (py_strip s) = hd ?v" using v by (simp add: py_strip_def last_rev)
  ultimately show ?thesis using hv hu lv by simp
qed

lemma py_strip_fixed:
  "t \<noteq> [] \<Longrightarrow> \<not> py_isspace (hd t) \<Longrightarrow> \<not> py_isspace (last t) \<Longrightarrow> py_strip t = t"
proof -
  assume a: "t \<noteq> []" "\<not> py_isspace (hd t)" "\<not> py_isspace (last t)"
  then have 1: "dropWhile py_isspace t = t" by (simp add: dropWhile_eq_self_iff)
  have "hd (rev t) = last t" using a(1) by (simp add: hd_rev)
  then have 2: "dropWhile py_isspace (rev t) = rev t" using a by (simp add: dropWhile_eq_self_iff)
  show ?thesis by (simp add: py_strip_def 1 2)
qed

lemma py_strip_idem: "py_strip (py_strip s) = py_strip s"
proof (cases "py_strip s = []")
  case True
  have "py_strip [] = []" by (simp add: py_strip_def)
  then show ?thesis by (simp only: True)
next
  case False
  from py_strip_no_space_ends [OF False] False show ?thesis
    by (simp add: py_strip_fixed)
qed

lemma normalize_format_no_comma: "CHR '','' \<notin> set (normalize_format s)"
  by (auto simp: normalize_format_def Let_def)

lemma normalize_format_plain:
  "CHR '','' \<notin> set s \<Longrightarrow> normalize_format s = py_strip s"
proof -
  assume nc: "CHR '','' \<notin> set s"
  then have "CHR '','' \<notin> set (py_strip s)"
    by (simp add: py_strip_mem not_space_comma_point)
  then have "map (\<lambda>c. if c = CHR '','' then CHR ''.'' else c) (py_strip s) = py_strip s"
    by (intro map_idI) auto
  with \<open>CHR '','' \<notin> set (py_strip s)\<close> show ?thesis
    by (simp add: normalize_format_def Let_def)
qed

text \<open>The rewritten text holds no comma and, unless it is empty, is not blank; rewriting
  it again only strips it, which the constructor does anyway.\<close>

lemma normalize_format_nonblank:
  assumes "normalize_format x \<noteq> []"
  shows "py_strip (normalize_format x) \<noteq> []"
proof -
  let ?f = "\<lambda>c. if c = CHR '','' then CHR ''.'' else c"
  let ?v1 = "py_strip x"
  have v1: "?v1 \<noteq> []"
    using assms by (auto simp: normalize_format_def Let_def)
  then have h: "\<not> py_isspace (hd ?v1)"
    using py_strip_no_space_ends by blast
  have "\<exists>c \<in> set (normalize_format x). \<not> py_isspace c"
  proof (cases "CHR '','' \<in> set ?v1 \<and> CHR ''.'' \<in> set ?v1")
    case True
    then have nf: "normalize_format x = map ?f (filter (\<lambda>c. c \<noteq> CHR ''.'') ?v1)"
      by (simp add: normalize_format_def Let_def)
    have "CHR '','' \<in> set (filter (\<lambda>c. c \<noteq> CHR ''.'') ?v1)"
      using True by simp
    then have "?f CHR '','' \<in> set (normalize_format x)"
      unfolding nf set_map by (rule imageI)
    then show ?thesis using not_space_comma_point by auto
  next
    case False
    then have nf: "normalize_format x = map ?f ?v1"
      by (auto simp add: normalize_format_def Let_def)
    have "hd ?v1 \<in> set ?v1" using v1 by simp
    then have "?f (hd ?v1) \<in> set (normalize_format x)"
      unfolding nf set_map by (rule imageI)
    moreover have "\<not> py_isspace (?f (hd ?v1))"
      using h not_space_comma_point by simp
    ultimately show ?thesis by blast
  qed
  then obtain c where "c \<in> set (normalize_format x)" "\<not> py_isspace c" by blast
  then have "c \<in> set (py_strip (normalize_format x))"
    by (simp add: py_strip_mem)
  then show ?thesis by auto
qed

lemma to_decimal_renormalized:
  "to_decimal (Some (normalize_format (normalize_format s))) = to_decimal (Some (normalize_format s))"
proof -
  let ?y = "normalize_format s"
  have ny: "normalize_format ?y = py_strip ?y"
    by (rule normalize_format_plain) (rule normalize_format_no_comma)
  show ?thesis
  proof (cases "?y = []")
    case True
    have "normalize_format [] = []" by (simp add: normalize_format_def py_strip_def)
    then show ?thesis by (simp only: True)
  next
    case False
    let ?z = "py_strip ?y"
    have z: "?z \<noteq> []" using False by (rule normalize_format_nonblank)
    have "CHR '','' \<notin> set ?z"
      using normalize_format_no_comma [of s] by (simp add: py_strip_mem not_space_comma_point)
    then have "normalize_format ?z = py_strip ?z" by (rule normalize_format_plain)
    then have nz: "normalize_format ?z = ?z" by (simp add: py_strip_idem)
    have "to_decimal (Some ?z) = decimal_of_str ?z"
      using z by (simp add: to_decimal_def nz)
    moreover have "to_decimal (Some ?y) = decimal_of_str ?z"
      using False by (simp add: to_decimal_def ny)
    ultimately show ?thesis by (simp add: ny)
  qed
qed

text \<open>Digits and points are none of the characters the constructor treats specially, so
  a numeral of digits around one point is read digit by digit.\<close>

lemma digit_code: "is_ascii_digit c \<Longrightarrow> 48 \<le> (of_char c :: nat) \<and> (of_char c :: nat) \<le> 57"
  by (simp add: is_ascii_digit_def py_int_char_def Let_def split: if_splits)

lemma digit_not_special:
  assumes "is_ascii_digit c"
  shows "c \<noteq> CHR ''.''" "c \<noteq> CHR '',''" "c \<noteq> CHR ''_''" "c \<noteq> CHR ''-''" "c \<noteq> CHR ''+''"
    "c \<noteq> CHR ''i''" "c \<noteq> CHR ''n''" "c \<noteq> CHR ''s''" "c \<noteq> CHR ''e''" "\<not> py_isspace c"
  using digit_code [OF assms] by (auto simp: py_isspace_def)

lemma plain_not_special:
  assumes "plain_char c"
  shows "c \<noteq> CHR '',''" "c \<noteq> CHR ''_''" "c \<noteq> CHR ''-''" "c \<noteq> CHR ''+''"
    "c \<noteq> CHR ''i''" "c \<noteq> CHR ''n''" "c \<noteq> CHR ''s''" "\<not> py_isspace c"
  using assms digit_not_special [of c] not_space_comma_point
  by (auto simp: plain_char_def)

lemma ascii_lower_plain: "plain_char c \<Longrightarrow> ascii_lower c = c"
proof -
  assume p: "plain_char c"
  have "c \<notin> set ''ABCDEFGHIJKLMNOPQRSTUVWXYZ''"
  proof (cases "is_ascii_digit c")
    case True
    from digit_code [OF True] show ?thesis by auto
  next
    case False
    with p have "c = CHR ''.''" by (simp add: plain_char_def)
    then show ?thesis by simp
  qed
  then have "map_of (zip ''ABCDEFGHIJKLMNOPQRSTUVWXYZ'' ''abcdefghijklmnopqrstuvwxyz'') c = None"
    by (simp only: map_of_eq_None_iff map_fst_zip [symmetric] set_map [symmetric]) simp
  then show ?thesis by (simp only: ascii_lower_def option.case)
qed

lemma parse_number_point:
  assumes da: "list_all is_ascii_digit da" and fp: "list_all is_ascii_digit fp"
    and ne: "da @ fp \<noteq> []"
  shows "parse_number sg (da @ CHR ''.'' # fp)
           = Some (Dec sg (nat_of_digits (da @ fp)) (- int (length fp)))"
proof -
  have nd: "\<not> is_ascii_digit CHR ''.''"
    by (simp add: is_ascii_digit_def py_int_char_def)
  have tw: "takeWhile is_ascii_digit (da @ CHR ''.'' # fp) = da"
    using da nd by (simp add: takeWhile_tail list_all_iff)
  have dw: "dropWhile is_ascii_digit (da @ CHR ''.'' # fp) = CHR ''.'' # fp"
    using da nd by (simp add: dropWhile_append3 list_all_iff)
  have tf: "takeWhile is_ascii_digit fp = fp" and df: "dropWhile is_ascii_digit fp = []"
    using fp by (simp_all add: list_all_iff)
  show ?thesis
    using ne by (simp add: parse_number_def tw dw tf df parse_exponent_def Let_def)
qed

lemma parse_decimal_point:
  assumes da: "list_all is_ascii_digit da" and fp: "list_all is_ascii_digit fp"
    and ne: "da @ fp \<noteq> []"
  shows "parse_decimal (da @ CHR ''.'' # fp)
           = Some (Dec False (nat_of_digits (da @ fp)) (- int (length fp)))"
proof -
  let ?t = "da @ CHR ''.'' # fp"
  have pl: "\<forall>c \<in> set ?t. plain_char c"
    using da fp by (auto simp: plain_char_def list_all_iff)
  have t: "?t \<noteq> []" by simp
  have "hd ?t \<in> set ?t" "last ?t \<in> set ?t"
    using hd_in_set [OF t] last_in_set [OF t] by blast+
  then have ns: "\<not> py_isspace (hd ?t)" and nl: "\<not> py_isspace (last ?t)"
    using pl plain_not_special(8) by blast+
  have st: "py_strip ?t = ?t"
    by (rule py_strip_fixed [OF t ns nl])
  have fu: "filter (\<lambda>c. c \<noteq> CHR ''_'') ?t = ?t"
    using pl plain_not_special(2) by (simp only: filter_id_conv) blast
  have hd: "hd ?t \<noteq> CHR ''-''" "hd ?t \<noteq> CHR ''+''"
    using \<open>hd ?t \<in> set ?t\<close> pl plain_not_special(3,4) by blast+
  have lo: "map ascii_lower ?t = ?t"
    using pl ascii_lower_plain by (intro map_idI) blast
  have np: "\<not> plain_char CHR ''i''" "\<not> plain_char CHR ''n''" "\<not> plain_char CHR ''s''"
    by (simp_all add: plain_char_def is_ascii_digit_def py_int_char_def)
  have i: "CHR ''i'' \<notin> set ?t" and n: "CHR ''n'' \<notin> set ?t" and s: "CHR ''s'' \<notin> set ?t"
    using pl np by auto
  have inf: "?t \<noteq> ''inf''"
  proof
    assume e: "?t = ''inf''"
    have "CHR ''i'' \<in> set ?t" unfolding e by simp
    with i show False by blast
  qed
  have infinity: "?t \<noteq> ''infinity''"
  proof
    assume e: "?t = ''infinity''"
    have "CHR ''i'' \<in> set ?t" unfolding e by simp
    with i show False by blast
  qed
  have nan: "take 3 ?t \<noteq> ''nan''"
  proof
    assume e: "take 3 ?t = ''nan''"
    have "CHR ''n'' \<in> set (take 3 ?t)" unfolding e by simp
    then have "CHR ''n'' \<in> set ?t" by (rule in_set_takeD)
    with n show False by blast
  qed
  have snan: "take 4 ?t \<noteq> ''snan''"
  proof
    assume e: "take 4 ?t = ''snan''"
    have "CHR ''s'' \<in> set (take 4 ?t)" unfolding e by simp
    then have "CHR ''s'' \<in> set ?t" by (rule in_set_takeD)
    with s show False by blast
  qed
  have sg: "(?t \<noteq> [] \<and> hd ?t = CHR ''-'') = False"
    using hd by simp
  have body: "(if ?t \<noteq> [] \<and> (hd ?t = CHR ''-'' \<or> hd ?t = CHR ''+'') then tl ?t else ?t) = ?t"
    using hd by simp
  have "parse_decimal ?t = parse_number False ?t"
    unfolding parse_decimal_def Let_def st fu sg body lo
    by (simp only: inf infinity nan snan simp_thms if_False)
  then show ?thesis
    by (simp only: parse_number_point [OF assms])
qed

lemma to_decimal_comma_point:
  assumes a: "list_all plain_char a" and fp: "list_all is_ascii_digit fp"
    and ne: "filter is_ascii_digit a @ fp \<noteq> []"
  shows "to_decimal (Some (a @ CHR '','' # fp))
           = Inr (Dec False (nat_of_digits (filter is_ascii_digit a @ fp)) (- int (length fp)))"
proof -
  let ?s = "a @ CHR '','' # fp"
  let ?f = "\<lambda>c. if c = CHR '','' then CHR ''.'' else c"
  let ?da = "filter is_ascii_digit a"
  have s: "?s \<noteq> []" by simp
  have nsp: "\<forall>c \<in> set ?s. \<not> py_isspace c"
    using a fp plain_not_special(8) digit_not_special(10) not_space_comma_point
    by (auto simp: list_all_iff)
  have "hd ?s \<in> set ?s" "last ?s \<in> set ?s"
    using hd_in_set [OF s] last_in_set [OF s] by blast+
  then have ns: "\<not> py_isspace (hd ?s)" and nl: "\<not> py_isspace (last ?s)"
    using nsp by blast+
  have st: "py_strip ?s = ?s"
    by (rule py_strip_fixed [OF s ns nl])
  have fa: "filter (\<lambda>c. c \<noteq> CHR ''.'') a = ?da"
    using a digit_not_special(1) by (intro filter_cong) (auto simp: list_all_iff plain_char_def)
  have ffp: "filter (\<lambda>c. c \<noteq> CHR ''.'') fp = fp"
    using fp digit_not_special(1) by (auto simp: filter_id_conv list_all_iff)
  have mda: "map ?f ?da = ?da"
    using digit_not_special(2) by (intro map_idI) auto
  have mfp: "map ?f fp = fp"
    using fp digit_not_special(2) by (intro map_idI) (auto simp: list_all_iff)
  have pfp: "CHR ''.'' \<notin> set fp"
    using fp digit_not_special(1) by (auto simp: list_all_iff)
  have nf: "normalize_format ?s = ?da @ CHR ''.'' # fp"
  proof (cases "CHR ''.'' \<in> set a")
    case True
    then have "normalize_format ?s = map ?f (filter (\<lambda>c. c \<noteq> CHR ''.'') ?s)"
      by (simp add: normalize_format_def st Let_def)
    also have "\<dots> = map ?f (?da @ CHR '','' # fp)"
      by (simp add: fa ffp)
    also have "\<dots> = ?da @ CHR ''.'' # fp"
      by (simp only: map_append list.map mda mfp) simp
    finally show ?thesis .
  next
    case False
    then have all: "?da = a"
      using a by (auto simp: filter_id_conv list_all_iff plain_char_def)
    from False pfp have "normalize_format ?s = map ?f ?s"
      by (simp add: normalize_format_def st Let_def)
    also have "\<dots> = ?da @ CHR ''.'' # fp"
      using mda mfp by (simp only: map_append list.map all) simp
    finally show ?thesis .
  qed
  have dd: "list_all is_ascii_digit ?da"
    by (simp add: list_all_iff)
  show ?thesis
    by (simp add: to_decimal_def nf decimal_of_str_def parse_decimal_point [OF dd fp ne])
qed

text \<open>
  Claim C5. For every text: when both a comma and a point occur, every point is removed
  and every comma becomes a point; when only a comma occurs, it becomes a point. Hence
  a numeral of digits and thousands points, a comma, and fraction digits is read as the
  exact decimal with those digits and as many decimal places as there are fraction
  digits. An absent or empty input gives exactly zero. Normalisation is idempotent on
  normalised text: normalising the output of the rewriting again gives the same result.
  The texts \<^verbatim>\<open>1.234,56\<close> and \<^verbatim>\<open>1234.56\<close> both give the exact decimal 1234.56.
\<close>

theorem monetary_normalization_policy:
  "(CHR '','' \<in> set s \<and> CHR ''.'' \<in> set s \<longrightarrow>
      normalize_format s =
        map (\<lambda>c. if c = CHR '','' then CHR ''.'' else c)
          (filter (\<lambda>c. c \<noteq> CHR ''.'') (py_strip s)))
   \<and> (CHR '','' \<in> set s \<and> CHR ''.'' \<notin> set s \<longrightarrow>
      normalize_format s = map (\<lambda>c. if c = CHR '','' then CHR ''.'' else c) (py_strip s))
   \<and> (list_all plain_char a \<and> list_all is_ascii_digit fp \<and> filter is_ascii_digit a @ fp \<noteq> [] \<longrightarrow>
      to_decimal (Some (a @ CHR '','' # fp))
        = Inr (Dec False (nat_of_digits (filter is_ascii_digit a @ fp)) (- int (length fp))))
   \<and> to_decimal None = Inr (Dec False 0 (- 1))
   \<and> to_decimal (Some []) = Inr (Dec False 0 (- 1))
   \<and> dec_value (Dec False 0 (- 1)) = 0
   \<and> to_decimal (Some (normalize_format (normalize_format s)))
        = to_decimal (Some (normalize_format s))
   \<and> to_decimal (Some ''1.234,56'') = Inr (Dec False 123456 (- 2))
   \<and> to_decimal (Some ''1234.56'') = Inr (Dec False 123456 (- 2))
   \<and> dec_value (Dec False 123456 (- 2)) = 123456 / 100"
proof (intro conjI impI)
  assume "CHR '','' \<in> set s \<and> CHR ''.'' \<in> set s"
  then show "normalize_format s =
        map (\<lambda>c. if c = CHR '','' then CHR ''.'' else c)
          (filter (\<lambda>c. c \<noteq> CHR ''.'') (py_strip s))"
    by (simp add: normalize_format_def Let_def py_strip_mem not_space_comma_point)
next
  assume "CHR '','' \<in> set s \<and> CHR ''.'' \<notin> set s"
  then show "normalize_format s = map (\<lambda>c. if c = CHR '','' then CHR ''.'' else c) (py_strip s)"
    by (simp add: normalize_format_def Let_def py_strip_mem not_space_comma_point)
next
  assume "list_all plain_char a \<and> list_all is_ascii_digit fp \<and> filter is_ascii_digit a @ fp \<noteq> []"
  then show "to_decimal (Some (a @ CHR '','' # fp))
        = Inr (Dec False (nat_of_digits (filter is_ascii_digit a @ fp)) (- int (length fp)))"
    using to_decimal_comma_point by blast
next
  show "to_decimal None = Inr (Dec False 0 (- 1))"
    by (simp add: to_decimal_def)
next
  show "to_decimal (Some []) = Inr (Dec False 0 (- 1))"
    by (simp add: to_decimal_def)
next
  show "dec_value (Dec False 0 (- 1)) = 0"
    by simp
next
  show "to_decimal (Some (normalize_format (normalize_format s)))
        = to_decimal (Some (normalize_format s))"
    by (rule to_decimal_renormalized)
next
  show "to_decimal (Some ''1.234,56'') = Inr (Dec False 123456 (- 2))"
    by (simp add: text_eval parse_eval)
next
  show "to_decimal (Some ''1234.56'') = Inr (Dec False 123456 (- 2))"
    by (simp add: text_eval parse_eval)
next
  show "dec_value (Dec False 123456 (- 2)) = 123456 / 100"
    by simp
qed

theorem monetary_normalization_policy_witness:
  "normalize_format ''1.234,56'' = ''1234.56''
   \<and> to_decimal (Some ''1.234,56'') = Inr (Dec False 123456 (- 2))
   \<and> normalize_format '' 12,5 '' = ''12.5''
   \<and> to_decimal (Some ''12,5'') = Inr (Dec False 125 (- 1))
   \<and> to_decimal (Some (normalize_format ''1234.56'')) = to_decimal (Some ''1234.56'')"
proof -
  note t1 = monetary_normalization_policy [of "''1.234,56''" "''1.234''" "''56''"]
  note t2 = monetary_normalization_policy [of "'' 12,5 ''" "''12''" "''5''"]
  have m1: "CHR '','' \<in> set ''1.234,56'' \<and> CHR ''.'' \<in> set ''1.234,56''"
    by simp
  have m2: "CHR '','' \<in> set '' 12,5 '' \<and> CHR ''.'' \<notin> set '' 12,5 ''"
    by simp
  have p1: "list_all plain_char ''1.234'' \<and> list_all is_ascii_digit ''56''
      \<and> filter is_ascii_digit ''1.234'' @ ''56'' \<noteq> []"
    by (simp add: plain_char_def is_ascii_digit_def py_int_char_def)
  have p2: "list_all plain_char ''12'' \<and> list_all is_ascii_digit ''5''
      \<and> filter is_ascii_digit ''12'' @ ''5'' \<noteq> []"
    by (simp add: plain_char_def is_ascii_digit_def py_int_char_def)
  have a: "normalize_format ''1.234,56'' = ''1234.56''"
    using t1 m1 by (simp add: py_strip_def py_isspace_def)
  have b: "to_decimal (Some ''1.234,56'') = Inr (Dec False 123456 (- 2))"
    using t1 by blast
  have c: "normalize_format '' 12,5 '' = ''12.5''"
    using t2 m2 by (simp add: py_strip_def py_isspace_def)
  have d: "to_decimal (Some ''12,5'') = Inr (Dec False 125 (- 1))"
    using t2 p2 by (simp add: is_ascii_digit_def py_int_char_def nat_of_digits_def)
  have e: "to_decimal (Some (normalize_format ''1234.56'')) = to_decimal (Some ''1234.56'')"
    by (simp add: text_eval parse_eval)
  from a b c d e show ?thesis by (intro conjI)
qed

subsection \<open>Unknown classification code\<close>

text \<open>The list of errors only grows along the item loop and the reconciliation, and an
  item whose code the lookup does not find adds its error.\<close>

lemma sum_step_issues:
  "sum_step item_prefix it st = Inr st' \<Longrightarrow> set (issues st) \<subseteq> set (issues st')"
  by (auto simp: sum_step_def bind_exn_def try_except_def split: sum.splits if_splits)

lemma cfop_step_issues: "issues (cfop_step item_prefix it st) = issues st"
  by (simp add: cfop_step_def)

lemma ncm_step_issues:
  "ncm_step consultar_ncm item_prefix it st = Inr st' \<Longrightarrow> set (issues st) \<subseteq> set (issues st')"
  by (auto simp: ncm_step_def bind_exn_def split: jopt.splits option.splits sum.splits if_splits)

lemma ncm_step_unknown:
  "ncm it = Val code \<Longrightarrow> code \<noteq> [] \<Longrightarrow> consultar_ncm code = None \<Longrightarrow>
     ncm_step consultar_ncm item_prefix it st
       = Inr (st\<lparr>issues := issues st @ [ItemNcmInvalido item_prefix code]\<rparr>)"
  by (simp add: ncm_step_def)

lemma audit_item_issues:
  "audit_item consultar_ncm i it st = Inr st' \<Longrightarrow> set (issues st) \<subseteq> set (issues st')"
proof -
  assume a: "audit_item consultar_ncm i it st = Inr st'"
  let ?p = "(i, get_default (codigo it) ''S/C'')"
  from a obtain st1 where 1: "ncm_step consultar_ncm ?p it st = Inr st1"
    and 2: "sum_step ?p it (cfop_step ?p it st1) = Inr st'"
    by (auto simp: audit_item_def bind_exn_def Let_def split: sum.splits)
  from ncm_step_issues [OF 1] sum_step_issues [OF 2] show ?thesis
    by (simp add: cfop_step_issues)
qed

lemma audit_item_unknown:
  assumes "ncm it = Val code" and "code \<noteq> []" and "consultar_ncm code = None"
    and "audit_item consultar_ncm i it st = Inr st'"
  shows "ItemNcmInvalido (i, get_default (codigo it) ''S/C'') code \<in> set (issues st')"
proof -
  let ?p = "(i, get_default (codigo it) ''S/C'')"
  let ?st1 = "st\<lparr>issues := issues st @ [ItemNcmInvalido ?p code]\<rparr>"
  from assms(4) ncm_step_unknown [where consultar_ncm = consultar_ncm and code = code, OF assms(1,2,3)]
  have 2: "sum_step ?p it (cfop_step ?p it ?st1) = Inr st'"
    by (simp add: audit_item_def bind_exn_def Let_def)
  from sum_step_issues [OF 2] show ?thesis
    by (auto simp: cfop_step_issues)
qed

lemma audit_items_issues:
  "audit_items consultar_ncm i its st = Inr st' \<Longrightarrow> set (issues st) \<subseteq> set (issues st')"
proof (induction its arbitrary: i st)
  case Nil
  then show ?case by simp
next
  case (Cons it its)
  from Cons.prems obtain st1 where 1: "audit_item consultar_ncm i it st = Inr st1"
    and 2: "audit_items consultar_ncm (Suc i) its st1 = Inr st'"
    by (auto simp: bind_exn_def split: sum.splits)
  from audit_item_issues [OF 1] Cons.IH [OF 2] show ?case by blast
qed

lemma audit_items_unknown:
  assumes "it \<in> set its" and "ncm it = Val code" and "code \<noteq> []"
    and "consultar_ncm code = None"
  shows "audit_items consultar_ncm i its st = Inr st' \<Longrightarrow>
           \<exists>j. ItemNcmInvalido (j, get_default (codigo it) ''S/C'') code \<in> set (issues st')"
  using assms(1)
proof (induction its arbitrary: i st)
  case Nil
  then show ?case by simp
next
  case (Cons x its)
  from Cons.prems(1) obtain st1 where 1: "audit_item consultar_ncm i x st = Inr st1"
    and 2: "audit_items consultar_ncm (Suc i) its st1 = Inr st'"
    by (auto simp: bind_exn_def split: sum.splits)
  show ?case
  proof (cases "it = x")
    case True
    from audit_item_unknown [where consultar_ncm = consultar_ncm and code = code, OF assms(2,3,4), of i st st1] 1 True
    have "ItemNcmInvalido (i, get_default (codigo it) ''S/C'') code \<in> set (issues st1)"
      by simp
    with audit_items_issues [OF 2] show ?thesis by blast
  next
    case False
    with Cons.prems(2) have "it \<in> set its" by simp
    from Cons.IH [OF 2 this] show ?thesis .
  qed
qed

lemma reconcile_issues:
  "reconcile dados st = Inr st' \<Longrightarrow> set (issues st) \<subseteq> set (issues st')"
  by (auto simp: reconcile_def bind_exn_def split: sum.splits if_splits)

lemma unknown_ncm_when_completed:
  assumes "erro dados = Absent" and "\<not> is_ocr_format (formato dados)"
    and "itens dados = Val its" and "it \<in> set its"
    and "ncm it = Val code" and "code \<noteq> []" and "consultar_ncm code = None"
    and "auditar consultar_ncm dados = Inr (Audited res)"
  shows "status_auditoria res = StatusError
     \<and> (\<exists>j. ItemNcmInvalido (j, get_default (codigo it) ''S/C'') code \<in> set (erros_auditoria res))"
proof -
  from assms(1,2,3,8) obtain st1 st2
    where 1: "audit_items consultar_ncm 1 its (initial_state dados its) = Inr st1"
      and 2: "reconcile dados st1 = Inr st2"
      and r: "res = make_result (issues st2) (warnings st2) (ncm_info st2)"
    by (auto simp: auditar_def structured_outcome_def audit_structured_def bind_exn_def
          split: sum.splits)
  from audit_items_unknown [where consultar_ncm = consultar_ncm and code = code, OF assms(4,5,6,7) 1] reconcile_issues [OF 2]
  obtain j where "ItemNcmInvalido (j, get_default (codigo it) ''S/C'') code \<in> set (issues st2)"
    by blast
  then show ?thesis
    unfolding r by (auto simp: make_result_def derive_status_def)
qed

text \<open>
  Claim C6 says that every structured record with an item whose classification code is
  present and not found yields the status \<open>error\<close>. The lemma above gives this whenever
  the audit completes. It does not always complete: on the example record with the
  unknown code 99999999 and the declared total \<^verbatim>\<open>abc\<close>, the normalisation of the declared
  total (source line 158, outside any handler) raises \<^verbatim>\<open>InvalidOperation\<close> after the
  item loop has recorded the error, and the audit yields no result. With the declared
  total 100.00 the same record yields the status \<open>error\<close> with the error of the item.
\<close>

theorem unknown_ncm_unparseable_total_raises:
  "tabela_exemplo ''99999999'' = None
   \<and> auditar tabela_exemplo
        (nota_exemplo\<lparr>itens := Val [item_exemplo\<lparr>ncm := Val ''99999999''\<rparr>],
           valor_total_nota := Val ''abc''\<rparr>)
      = Inl InvalidOperation
   \<and> auditar tabela_exemplo
        (nota_exemplo\<lparr>itens := Val [item_exemplo\<lparr>ncm := Val ''99999999''\<rparr>]\<rparr>)
      = Inr (Audited \<lparr>status_auditoria = StatusError,
          erros_auditoria = [ItemNcmInvalido (1, Some ''P1'') ''99999999''],
          avisos_auditoria = [], info_ncm = []\<rparr>)"
  by (simp add: example_eval engine_eval text_eval parse_eval decimal_eval validator_eval)

end
